theory Spec2Isabelle
  imports Complex_Main "HOL-Library.Multiset" "HOL-Library.AList"
begin

section \<open>Conventions of the embedding\<close>

text \<open>
  The theory embeds \<^verbatim>\<open>treecorr/binnedcorr2.py\<close>: the resolution of the binning
  parameters in \<^verbatim>\<open>BinnedCorr2.__init__\<close>, the patch-wise accumulation of
  \<^verbatim>\<open>_process_all_auto\<close> and \<^verbatim>\<open>_process_all_cross\<close>, and the
  covariance estimators behind \<^verbatim>\<open>estimate_multi_cov\<close>.

  Python floats and numpy float arrays are idealised as real numbers and lists of real
  numbers: rounding, overflow and the order dependence of floating-point sums are outside
  the model. A Python exception is a value of type \<open>error\<close>, returned as \<open>Inl\<close>.
  Python-level division (\<^verbatim>\<open>/\<close> on Python floats and ints) raises on a zero divisor
  and \<^verbatim>\<open>math.log\<close> raises outside its domain; both are branches of the model.
  Where numpy divides arrays elementwise no exception is raised: at a zero divisor the
  quotient is \<^verbatim>\<open>nan\<close> or \<^verbatim>\<open>inf\<close>. The entries of such arrays are values
  of type \<open>npfloat\<close>, and the arithmetic that follows a quotient propagates the special
  values as numpy does.
\<close>

datatype error =
    TypeError string
  | ValueError string
  | RuntimeError string
  | AssertionError
  | ZeroDivisionError
  | IndexError
  | KeyError "nat \<times> nat"

definition ebind :: "error + 'a \<Rightarrow> ('a \<Rightarrow> error + 'b) \<Rightarrow> error + 'b" where
  "ebind m f = (case m of Inl e \<Rightarrow> Inl e | Inr x \<Rightarrow> f x)"

definition is_error :: "error + 'a \<Rightarrow> bool" where
  "is_error m = (case m of Inl _ \<Rightarrow> True | Inr _ \<Rightarrow> False)"

definition py_div :: "real \<Rightarrow> real \<Rightarrow> error + real" where
  "py_div a d = (if d = 0 then Inl ZeroDivisionError else Inr (a / d))"

definition math_log :: "real \<Rightarrow> error + real" where
  "math_log x = (if x \<le> 0 then Inl (ValueError ''math domain error'') else Inr (ln x))"

text \<open>
  \<^verbatim>\<open>np.linspace(start, stop, num, endpoint=False)\<close>: \<open>num\<close> samples
  \<open>i * step + start\<close> with \<open>step = (stop - start) / num\<close>; a negative \<open>num\<close> is a
  \<^verbatim>\<open>ValueError\<close>, and \<open>num = 0\<close> gives the empty array.
\<close>

definition linspace :: "real \<Rightarrow> real \<Rightarrow> int \<Rightarrow> error + real list" where
  "linspace start stop num =
     (if num < 0 then Inl (ValueError ''Number of samples must be non-negative'')
      else Inr (map (\<lambda>i. real i * ((stop - start) / real_of_int num) + start) [0..<nat num]))"

section \<open>Resolution of the binning parameters\<close>

datatype bin_type = Log | Linear | TwoD

text \<open>
  The configuration dictionary, restricted to the keys the resolution reads. A key that
  is absent from the dictionary is \<open>None\<close>. \<open>cfg_sep_units\<close> is the numeric factor
  that the configuration layer returns for the key \<^verbatim>\<open>sep_units\<close> (radians per
  unit; 1 when the key is absent).
\<close>

record config =
  cfg_bin_type :: bin_type
  cfg_nbins :: "int option"
  cfg_bin_size :: "real option"
  cfg_min_sep :: "real option"
  cfg_max_sep :: "real option"
  cfg_bin_slop :: "real option"
  cfg_sep_units :: real

text \<open>
  An entry of a numpy array of floats: a finite value, one of the two infinities, or
  not-a-number. Finite values are real numbers (rounding and overflow are not
  modelled).
\<close>

datatype npfloat = Fin real | PInf | MInf | NaN

text \<open>The value of \<^verbatim>\<open>np.log\<close> on an array entry: no exception is raised.\<close>

definition np_log :: "real \<Rightarrow> npfloat" where
  "np_log x = (if 0 < x then Fin (ln x) else if x = 0 then MInf else NaN)"

datatype geometry =
    Radial (logr: "npfloat list") (rnom: "real list")
           (left_edges: "real list") (right_edges: "real list")
  | Grid (dx: "real list list") (dy: "real list list")
         (left_edges2: "real list list") (right_edges2: "real list list")
         (bottom_edges: "real list list") (top_edges: "real list list")
         (rnom2: "real list list") (logr2: "npfloat list list")

record binned =
  nbins :: int
  bin_size :: real
  min_sep :: real
  max_sep :: real
  geom :: geometry
  priv_nbins :: int
  priv_min_sep :: real
  priv_max_sep :: real
  priv_bin_size :: real
  bin_slop :: real
  b :: real
  slop_warning :: bool

text \<open>
  Lines 278-318: which of the four parameters are read, and the configuration errors.
  The result is the quadruple \<open>(nbins, bin_size, min_sep, max_sep)\<close> of the attributes,
  the one still to be derived being \<open>None\<close>.
\<close>

type_synonym params = "int option \<times> real option \<times> real option \<times> real option"

definition get_min_sep :: "config \<Rightarrow> real" where
  "get_min_sep c = (case cfg_min_sep c of None \<Rightarrow> 0 | Some m \<Rightarrow> m)"

definition read_params :: "config \<Rightarrow> error + params" where
  "read_params c =
    (case cfg_nbins c of
       None \<Rightarrow>
        (case cfg_max_sep c of
           None \<Rightarrow> Inl (TypeError ''Missing required parameter max_sep'')
         | Some mx \<Rightarrow>
            if cfg_min_sep c = None \<and> cfg_bin_type c \<noteq> TwoD
            then Inl (TypeError ''Missing required parameter min_sep'')
            else (case cfg_bin_size c of
               None \<Rightarrow> Inl (TypeError ''Missing required parameter bin_size'')
             | Some bs \<Rightarrow>
                if get_min_sep c \<ge> mx
                then Inl (ValueError ''max_sep must be larger than min_sep'')
                else Inr (None, Some bs, Some (get_min_sep c), Some mx)))
     | Some nb \<Rightarrow>
        (case cfg_bin_size c of
           None \<Rightarrow>
            (case cfg_max_sep c of
               None \<Rightarrow> Inl (TypeError ''Missing required parameter max_sep'')
             | Some mx \<Rightarrow>
                if cfg_min_sep c = None \<and> cfg_bin_type c \<noteq> TwoD
                then Inl (TypeError ''Missing required parameter min_sep'')
                else if get_min_sep c \<ge> mx
                then Inl (ValueError ''max_sep must be larger than min_sep'')
                else Inr (Some nb, None, Some (get_min_sep c), Some mx))
         | Some bs \<Rightarrow>
            (case cfg_max_sep c of
               None \<Rightarrow>
                if cfg_min_sep c = None \<and> cfg_bin_type c \<noteq> TwoD
                then Inl (TypeError ''Missing required parameter min_sep'')
                else Inr (Some nb, Some bs, Some (get_min_sep c), None)
             | Some mx \<Rightarrow>
                if cfg_bin_type c = TwoD
                then Inl (TypeError
                  ''Only 2 of max_sep, bin_size, nbins are allowed for bin_type=TwoD.'')
                else if cfg_min_sep c \<noteq> None
                then Inl (TypeError
                  ''Only 3 of min_sep, max_sep, bin_size, nbins are allowed.'')
                else Inr (Some nb, Some bs, None, Some mx))))"

text \<open>
  The values that a branch of lines 320-395 hands on: the four resolved parameters, the
  arrays, \<^verbatim>\<open>_nbins\<close>, and the three local variables \<^verbatim>\<open>min_log_bin_size\<close>,
  \<^verbatim>\<open>max_log_bin_size\<close> and \<^verbatim>\<open>max_good_slop\<close>.
\<close>

record branch =
  br_nbins :: int
  br_bin_size :: real
  br_min_sep :: real
  br_max_sep :: real
  br_geom :: geometry
  br_priv_nbins :: int
  min_log_bin_size :: real
  max_log_bin_size :: real
  max_good_slop :: real

text \<open>
  An attribute that is still \<open>None\<close> where the code computes with it: Python raises a
  \<^verbatim>\<open>TypeError\<close>. \<open>read_params\<close> never produces such a quadruple.
\<close>

definition none_operand :: "error + 'a" where
  "none_operand = Inl (TypeError ''unsupported operand type(s): NoneType'')"

text \<open>Lines 321-330: the fourth parameter for \<^verbatim>\<open>bin_type == 'Log'\<close>.\<close>

fun derive_log :: "params \<Rightarrow> error + (int \<times> real \<times> real \<times> real)" where
  "derive_log (None, Some bs, Some mn, Some mx) =
     ebind (py_div mx mn) (\<lambda>r. ebind (math_log r) (\<lambda>l. ebind (py_div l bs) (\<lambda>q.
       let nb = \<lceil>q\<rceil> in
       ebind (py_div l (real_of_int nb)) (\<lambda>bs'. Inr (nb, bs', mn, mx)))))"
| "derive_log (Some nb, None, Some mn, Some mx) =
     ebind (py_div mx mn) (\<lambda>r. ebind (math_log r) (\<lambda>l.
       ebind (py_div l (real_of_int nb)) (\<lambda>bs. Inr (nb, bs, mn, mx))))"
| "derive_log (Some nb, Some bs, Some mn, None) =
     Inr (nb, bs, mn, exp (real_of_int nb * bs) * mn)"
| "derive_log (Some nb, Some bs, None, Some mx) =
     Inr (nb, bs, mx * exp (- real_of_int nb * bs), mx)"
| "derive_log _ = none_operand"

text \<open>Lines 332-345: the arrays and the slop bounds of the logarithmic binning.\<close>

definition arrays_log :: "int \<times> real \<times> real \<times> real \<Rightarrow> error + branch" where
  "arrays_log p =
    (case p of (nb, bs, mn, mx) \<Rightarrow>
      ebind (linspace 0 (real_of_int nb * bs) nb) (\<lambda>logr0.
      ebind (math_log mn) (\<lambda>lmn.
        let logr1 = map (\<lambda>x. x + (lmn + 0.5 * bs)) logr0;
            rn = map exp logr1;
            half_bin = exp (0.5 * bs)
        in ebind (py_div 0.1 bs) (\<lambda>mgs.
          Inr \<lparr> br_nbins = nb, br_bin_size = bs, br_min_sep = mn, br_max_sep = mx,
                br_geom = Radial (map Fin logr1) rn
                            (map (\<lambda>r. r / half_bin) rn) (map (\<lambda>r. r * half_bin) rn),
                br_priv_nbins = nb,
                min_log_bin_size = bs, max_log_bin_size = bs, max_good_slop = mgs \<rparr>))))"

text \<open>Lines 347-356: the fourth parameter for \<^verbatim>\<open>bin_type == 'Linear'\<close>.\<close>

fun derive_linear :: "params \<Rightarrow> error + (int \<times> real \<times> real \<times> real)" where
  "derive_linear (None, Some bs, Some mn, Some mx) =
     ebind (py_div (mx - mn) bs) (\<lambda>q.
       let nb = \<lceil>q\<rceil> in
       ebind (py_div (mx - mn) (real_of_int nb)) (\<lambda>bs'. Inr (nb, bs', mn, mx)))"
| "derive_linear (Some nb, None, Some mn, Some mx) =
     ebind (py_div (mx - mn) (real_of_int nb)) (\<lambda>bs. Inr (nb, bs, mn, mx))"
| "derive_linear (Some nb, Some bs, Some mn, None) =
     Inr (nb, bs, mn, mn + real_of_int nb * bs)"
| "derive_linear (Some nb, Some bs, None, Some mx) =
     Inr (nb, bs, mx - real_of_int nb * bs, mx)"
| "derive_linear _ = none_operand"

text \<open>Lines 358-369: the arrays and the slop bounds of the linear binning.\<close>

definition arrays_linear :: "int \<times> real \<times> real \<times> real \<Rightarrow> error + branch" where
  "arrays_linear p =
    (case p of (nb, bs, mn, mx) \<Rightarrow>
      ebind (linspace mn mx nb) (\<lambda>rn0.
        let rn = map (\<lambda>x. x + 0.5 * bs) rn0 in
        ebind (py_div bs mx) (\<lambda>minl.
        ebind (py_div bs (mn + bs / 2)) (\<lambda>maxl.
        ebind (py_div 0.1 maxl) (\<lambda>mgs.
          Inr \<lparr> br_nbins = nb, br_bin_size = bs, br_min_sep = mn, br_max_sep = mx,
                br_geom = Radial (map np_log rn) rn
                            (map (\<lambda>r. r - 0.5 * bs) rn) (map (\<lambda>r. r + 0.5 * bs) rn),
                br_priv_nbins = nb,
                min_log_bin_size = minl, max_log_bin_size = maxl,
                max_good_slop = mgs \<rparr>)))))"

text \<open>
  Lines 371-377: the third parameter for \<^verbatim>\<open>bin_type == 'TwoD'\<close>. \<open>min_sep\<close> is
  whatever \<open>read_params\<close> left there (0 when the key is absent) and is handed on.
\<close>

fun derive_twod :: "params \<Rightarrow> error + (int \<times> real \<times> real \<times> real)" where
  "derive_twod (None, Some bs, Some mn, Some mx) =
     ebind (py_div (2 * mx) bs) (\<lambda>q.
       let nb = \<lceil>q\<rceil> in
       ebind (py_div (2 * mx) (real_of_int nb)) (\<lambda>bs'. Inr (nb, bs', mn, mx)))"
| "derive_twod (Some nb, None, Some mn, Some mx) =
     ebind (py_div (2 * mx) (real_of_int nb)) (\<lambda>bs. Inr (nb, bs, mn, mx))"
| "derive_twod (Some nb, Some bs, Some mn, None) =
     Inr (nb, bs, mn, real_of_int nb * bs / 2)"
| "derive_twod _ = none_operand"

text \<open>
  Lines 379-395. \<^verbatim>\<open>np.meshgrid(sep, sep)\<close> gives \<open>dx[r][c] = sep[c]\<close> and
  \<open>dy[r][c] = sep[r]\<close>.
\<close>

definition arrays_twod :: "int \<times> real \<times> real \<times> real \<Rightarrow> error + branch" where
  "arrays_twod p =
    (case p of (nb, bs, mn, mx) \<Rightarrow>
      ebind (linspace (- mx) mx nb) (\<lambda>sep0.
        let sep = map (\<lambda>x. x + 0.5 * bs) sep0;
            gx = map (\<lambda>y. sep) sep;
            gy = map (\<lambda>y. map (\<lambda>x. y) sep) sep;
            rn = map (\<lambda>y. map (\<lambda>x. sqrt (x\<^sup>2 + y\<^sup>2)) sep) sep
        in
        ebind (py_div bs mx) (\<lambda>minl.
        ebind (py_div bs (mn + bs / 2)) (\<lambda>maxl.
        ebind (py_div 0.1 maxl) (\<lambda>mgs.
          Inr \<lparr> br_nbins = nb, br_bin_size = bs, br_min_sep = mn, br_max_sep = mx,
                br_geom = Grid gx gy
                            (map (map (\<lambda>x. x - 0.5 * bs)) gx)
                            (map (map (\<lambda>x. x + 0.5 * bs)) gx)
                            (map (map (\<lambda>y. y - 0.5 * bs)) gy)
                            (map (map (\<lambda>y. y + 0.5 * bs)) gy)
                            rn (map (map np_log) rn),
                br_priv_nbins = nb * nb,
                min_log_bin_size = minl, max_log_bin_size = maxl,
                max_good_slop = mgs \<rparr>)))))"

definition resolve_branch :: "bin_type \<Rightarrow> params \<Rightarrow> error + branch" where
  "resolve_branch t p =
    (case t of
       Log \<Rightarrow> ebind (derive_log p) arrays_log
     | Linear \<Rightarrow> ebind (derive_linear p) arrays_linear
     | TwoD \<Rightarrow> ebind (derive_twod p) arrays_twod)"

text \<open>
  Lines 407-431: the natural units, \<^verbatim>\<open>bin_slop\<close>, the tolerance \<open>b\<close> and the
  warning. The configuration layer returns \<open>-1.0\<close> for an absent \<^verbatim>\<open>bin_slop\<close>.
\<close>

definition finish :: "config \<Rightarrow> branch \<Rightarrow> binned" where
  "finish c br =
    (let u = cfg_sep_units c;
         lin = (cfg_bin_type c = Linear \<or> cfg_bin_type c = TwoD);
         minl = (if lin then min_log_bin_size br * u else min_log_bin_size br);
         slop0 = (case cfg_bin_slop c of None \<Rightarrow> - 1 | Some s \<Rightarrow> s);
         slop = (if slop0 < 0 then min (max_good_slop br) 1 else slop0)
     in \<lparr> nbins = br_nbins br, bin_size = br_bin_size br,
          min_sep = br_min_sep br, max_sep = br_max_sep br,
          geom = br_geom br, priv_nbins = br_priv_nbins br,
          priv_min_sep = br_min_sep br * u, priv_max_sep = br_max_sep br * u,
          priv_bin_size = (if lin then br_bin_size br * u else br_bin_size br),
          bin_slop = slop, b = minl * slop,
          slop_warning = (slop > max_good_slop br + 0.0001) \<rparr>)"

text \<open>
  The resolution as a whole. Line 277 takes \<^verbatim>\<open>math.log\<close> of the unit factor
  before any parameter is read.
\<close>

definition resolve :: "config \<Rightarrow> error + binned" where
  "resolve c =
     ebind (math_log (cfg_sep_units c)) (\<lambda>_.
     ebind (read_params c) (\<lambda>p.
     ebind (resolve_branch (cfg_bin_type c) p) (\<lambda>br. Inr (finish c br))))"

section \<open>Patch results and correlation objects\<close>

type_synonym vec = "real list"
type_synonym mat = "real list list"
type_synonym pair = "nat \<times> nat"

text \<open>
  The arrays of a correlation object that the estimators and the accumulation read: \<open>xi\<close> is what
  \<^verbatim>\<open>_getStat()\<close> returns, \<open>weight\<close> what \<^verbatim>\<open>_getWeight()\<close> returns, both
  flattened; \<open>npairs\<close> is the array of pair counts. All three have
  \<^verbatim>\<open>_getStatLen()\<close> entries.
\<close>

record presult =
  xi :: vec
  weight :: vec
  npairs :: vec

text \<open>
  A correlation object: its own arrays, and the attributes that the estimators read.
  \<open>results\<close> is the dictionary \<^verbatim>\<open>self.results\<close> from patch pairs to patch
  results, as the list of its items in insertion order (the keys are distinct);
  \<open>var_num\<close> is \<^verbatim>\<open>_var_num\<close>, set by the derived classes.
\<close>

record corr = presult +
  results :: "(pair \<times> presult) list"
  getStatLen :: nat
  var_num :: real
  num_bootstrap :: int

fun emap :: "('a \<Rightarrow> error + 'b) \<Rightarrow> 'a list \<Rightarrow> error + 'b list" where
  "emap f [] = Inr []"
| "emap f (x # xs) = ebind (f x) (\<lambda>y. ebind (emap f xs) (\<lambda>ys. Inr (y # ys)))"

section \<open>Covariance estimation\<close>

text \<open>\<^verbatim>\<open>corr.results[(j,k)]\<close>: a missing key is a \<^verbatim>\<open>KeyError\<close>.\<close>

definition result_at :: "corr \<Rightarrow> pair \<Rightarrow> error + presult" where
  "result_at c p = (case map_of (results c) p of None \<Rightarrow> Inl (KeyError p) | Some r \<Rightarrow> Inr r)"

text \<open>
  \<^verbatim>\<open>np.sum(list_of_arrays, axis=0)\<close> assigned to a row of \<open>n\<close> zeros: the
  elementwise sum of the arrays, each of length \<open>n\<close>; the row of zeros for the empty
  list.
\<close>

definition np_sum_rows :: "nat \<Rightarrow> vec list \<Rightarrow> vec" where
  "np_sum_rows n vs = map (\<lambda>k. sum_list (map (\<lambda>v. v ! k) vs)) [0..<n]"

definition make_cov_design_matrix :: "corr \<Rightarrow> pair list list \<Rightarrow> error + (mat \<times> mat)" where
  "make_cov_design_matrix c all_pairs =
     ebind (emap (emap (result_at c)) all_pairs) (\<lambda>rs.
       Inr (map (\<lambda>r. np_sum_rows (getStatLen c) (map xi r)) rs,
            map (\<lambda>r. np_sum_rows (getStatLen c) (map weight r)) rs))"

text \<open>\<^verbatim>\<open>len(set(...))\<close>.\<close>

definition count_distinct :: "nat list \<Rightarrow> nat" where
  "count_distinct xs = length (remdups xs)"

definition keys :: "corr \<Rightarrow> pair list" where
  "keys c = map fst (results c)"

text \<open>
  The check of lines 836-844 on one of the further correlation objects; the result is
  its entry \<open>(n1, n2, pairs)\<close> in the three parallel lists \<^verbatim>\<open>npatch1\<close>,
  \<^verbatim>\<open>npatch2\<close>, \<^verbatim>\<open>all_pairs\<close>.
\<close>

definition check_patches :: "nat \<Rightarrow> corr \<Rightarrow> error + (nat \<times> nat \<times> pair list)" where
  "check_patches npatch c =
     (let pairs = keys c;
          n1 = count_distinct (map fst pairs);
          n2 = count_distinct (map snd pairs)
      in if (n1 \<noteq> 1 \<and> n1 \<noteq> npatch) \<or> (n2 \<noteq> 1 \<and> n2 \<noteq> npatch)
         then Inl (ValueError ''All correlation functions must have used the same patchs'')
         else Inr (n1, n2, pairs))"

text \<open>
  \<^verbatim>\<open>_get_patch_nums\<close>. The three parallel lists that the code returns are kept as
  one list of triples \<open>(n1, n2, pairs)\<close>, one per correlation object.
\<close>

definition get_patch_nums :: "corr list \<Rightarrow> error + (nat \<times> (nat \<times> nat \<times> pair list) list)" where
  "get_patch_nums corrs =
     (case corrs of
        [] \<Rightarrow> Inl IndexError
      | c0 # rest \<Rightarrow>
         let pairs = keys c0 in
         if length pairs = 0
         then Inl (ValueError ''Jackknife covariance requires processing using patches.'')
         else
           let npatch1 = count_distinct (map fst pairs);
               npatch2 = count_distinct (map snd pairs)
           in if set (map fst pairs) \<noteq> set [0..<npatch1] then Inl AssertionError
              else if set (map snd pairs) \<noteq> set [0..<npatch2] then Inl AssertionError
              else if npatch1 \<noteq> npatch2 \<and> npatch1 \<noteq> 1 \<and> npatch2 \<noteq> 1
              then Inl (RuntimeError
                ''All catalogs must use the same number of patches or use 1 patch.'')
              else
                let npatch = max npatch1 npatch2 in
                ebind (emap (check_patches npatch) rest) (\<lambda>more.
                  Inr (npatch, (npatch1, npatch2, pairs) # more)))"

text \<open>
  The design matrices of all correlation objects, for a rule \<open>vp\<close> that gives the
  pairs of each sample (the body of the loop over
  \<^verbatim>\<open>zip(corrs, npatch1, npatch2, all_pairs)\<close>).
\<close>

definition design_matrices ::
  "(nat \<Rightarrow> nat \<Rightarrow> pair list \<Rightarrow> error + pair list list) \<Rightarrow> corr list
     \<Rightarrow> (nat \<times> nat \<times> pair list) list \<Rightarrow> error + (mat \<times> mat) list" where
  "design_matrices vp corrs triples =
     emap (\<lambda>(c, n1, n2, pairs). ebind (vp n1 n2 pairs) (make_cov_design_matrix c))
       (zip corrs triples)"

text \<open>
  \<^verbatim>\<open>np.hstack\<close> of matrices given as lists of rows: the matrices must have the
  same number of rows.
\<close>

definition hstack :: "mat list \<Rightarrow> error + mat" where
  "hstack ms =
     (case ms of
        [] \<Rightarrow> Inl (ValueError ''need at least one array to concatenate'')
      | m # rest \<Rightarrow>
         if list_all (\<lambda>m'. length m' = length m) rest
         then Inr (map (\<lambda>i. concat (map (\<lambda>m'. m' ! i) ms)) [0..<length m])
         else Inl (ValueError ''all the input array dimensions must match exactly''))"

subsection \<open>Arithmetic of numpy floats\<close>

text \<open>
  The arithmetic of numpy arrays of floats raises no exception: a division by zero gives
  an infinity or not-a-number, and these values propagate by the IEEE rules. A zero is
  taken as the positive zero.
\<close>

type_synonym npvec = "npfloat list"
type_synonym npmat = "npfloat list list"

definition np_inf :: "bool \<Rightarrow> npfloat" where
  "np_inf positive = (if positive then PInf else MInf)"

fun np_neg :: "npfloat \<Rightarrow> npfloat" where
  "np_neg (Fin x) = Fin (- x)"
| "np_neg PInf = MInf"
| "np_neg MInf = PInf"
| "np_neg NaN = NaN"

fun np_add :: "npfloat \<Rightarrow> npfloat \<Rightarrow> npfloat" where
  "np_add (Fin x) (Fin y) = Fin (x + y)"
| "np_add NaN _ = NaN"
| "np_add _ NaN = NaN"
| "np_add PInf MInf = NaN"
| "np_add MInf PInf = NaN"
| "np_add PInf _ = PInf"
| "np_add _ PInf = PInf"
| "np_add MInf _ = MInf"
| "np_add _ MInf = MInf"

definition np_sub :: "npfloat \<Rightarrow> npfloat \<Rightarrow> npfloat" where
  "np_sub x y = np_add x (np_neg y)"

fun np_mul :: "npfloat \<Rightarrow> npfloat \<Rightarrow> npfloat" where
  "np_mul (Fin x) (Fin y) = Fin (x * y)"
| "np_mul NaN _ = NaN"
| "np_mul _ NaN = NaN"
| "np_mul PInf (Fin y) = (if y = 0 then NaN else np_inf (0 < y))"
| "np_mul MInf (Fin y) = (if y = 0 then NaN else np_inf (y < 0))"
| "np_mul (Fin x) PInf = (if x = 0 then NaN else np_inf (0 < x))"
| "np_mul (Fin x) MInf = (if x = 0 then NaN else np_inf (x < 0))"
| "np_mul PInf PInf = PInf"
| "np_mul MInf MInf = PInf"
| "np_mul PInf MInf = MInf"
| "np_mul MInf PInf = MInf"

fun np_div :: "npfloat \<Rightarrow> npfloat \<Rightarrow> npfloat" where
  "np_div (Fin x) (Fin y) =
     (if y \<noteq> 0 then Fin (x / y) else if x = 0 then NaN else np_inf (0 < x))"
| "np_div NaN _ = NaN"
| "np_div _ NaN = NaN"
| "np_div (Fin x) PInf = Fin 0"
| "np_div (Fin x) MInf = Fin 0"
| "np_div PInf (Fin y) = np_inf (0 \<le> y)"
| "np_div MInf (Fin y) = np_inf (y < 0)"
| "np_div _ _ = NaN"

text \<open>\<^verbatim>\<open>np.sum\<close> of float entries.\<close>

definition np_sum :: "npfloat list \<Rightarrow> npfloat" where
  "np_sum xs = foldr np_add xs (Fin 0)"

text \<open>
  Elementwise quotient of two arrays of finite entries of the same shape: no exception,
  an entry with a zero divisor is an infinity or not-a-number.
\<close>

definition vec_div :: "vec \<Rightarrow> vec \<Rightarrow> npvec" where
  "vec_div x y = map2 (\<lambda>a d. np_div (Fin a) (Fin d)) x y"

definition mat_div :: "mat \<Rightarrow> mat \<Rightarrow> npmat" where
  "mat_div x y = map2 vec_div x y"

text \<open>
  \<^verbatim>\<open>np.mean(v, axis=0)\<close>, \<^verbatim>\<open>v -= vmean\<close>, \<^verbatim>\<open>v.T.dot(v)\<close> and the product
  with a scalar \<open>f\<close>, for a matrix \<open>v\<close> with \<open>n\<close> columns, given as the list of its rows.
  The mean of no rows is not-a-number.
\<close>

definition col_mean :: "nat \<Rightarrow> npmat \<Rightarrow> npvec" where
  "col_mean n v =
     map (\<lambda>k. np_div (np_sum (map (\<lambda>row. row ! k) v)) (Fin (real (length v)))) [0..<n]"

definition center :: "nat \<Rightarrow> npmat \<Rightarrow> npmat" where
  "center n v = map (\<lambda>row. map (\<lambda>k. np_sub (row ! k) (col_mean n v ! k)) [0..<n]) v"

definition gram :: "nat \<Rightarrow> npmat \<Rightarrow> npmat" where
  "gram n v =
     map (\<lambda>i. map (\<lambda>j. np_sum (map (\<lambda>row. np_mul (row ! i) (row ! j)) v)) [0..<n]) [0..<n]"

definition scale :: "npfloat \<Rightarrow> npmat \<Rightarrow> npmat" where
  "scale f m = map (map (\<lambda>x. np_mul f x)) m"

text \<open>The number of columns of the stacked matrices.\<close>

definition total_len :: "corr list \<Rightarrow> nat" where
  "total_len corrs = sum_list (map getStatLen corrs)"

subsection \<open>Shot noise\<close>

text \<open>
  Lines 803-807 for one correlation object. A boolean mask whose length is not that of
  the indexed array is an \<^verbatim>\<open>IndexError\<close>.
\<close>

definition shot_vector :: "corr \<Rightarrow> error + vec" where
  "shot_vector c =
     (if length (weight c) \<noteq> getStatLen c then Inl IndexError
      else Inr (map (\<lambda>w. if w \<noteq> 0 then var_num c / w else 0) (weight c)))"

definition np_diag :: "vec \<Rightarrow> mat" where
  "np_diag d = map (\<lambda>i. map (\<lambda>j. if i = j then d ! i else 0) [0..<length d]) [0..<length d]"

definition cov_shot :: "corr list \<Rightarrow> error + mat" where
  "cov_shot corrs =
     ebind (emap shot_vector corrs) (\<lambda>vlist.
       if vlist = [] then Inl (ValueError ''need at least one array to concatenate'')
       else Inr (np_diag (concat vlist)))"

subsection \<open>Jackknife\<close>

definition jackknife_pairs :: "nat \<Rightarrow> nat \<Rightarrow> pair list \<Rightarrow> error + pair list list" where
  "jackknife_pairs n1 n2 pairs =
     (if n2 = 1 then Inr (map (\<lambda>i. [(j, 0). j \<leftarrow> [0..<n1], j \<noteq> i]) [0..<n1])
      else if n1 = 1 then Inr (map (\<lambda>i. [(0, j). j \<leftarrow> [0..<n2], j \<noteq> i]) [0..<n2])
      else if n1 \<noteq> n2 then Inl AssertionError
      else Inr (map (\<lambda>i. [(j, k). (j, k) \<leftarrow> pairs, j \<noteq> i \<and> k \<noteq> i]) [0..<n1]))"

text \<open>
  Lines 847-875. The factor \<^verbatim>\<open>(1.-1./npatch)\<close> divides by a Python integer;
  \<open>npatch\<close> is positive where \<^verbatim>\<open>_get_patch_nums\<close> has returned, so the division
  does not raise. Line 871 divides arrays.
\<close>

definition cov_jackknife :: "corr list \<Rightarrow> error + npmat" where
  "cov_jackknife corrs =
     ebind (get_patch_nums corrs) (\<lambda>(npatch, triples).
     ebind (design_matrices jackknife_pairs corrs triples) (\<lambda>nd.
     ebind (hstack (map fst nd)) (\<lambda>vnum.
     ebind (hstack (map snd nd)) (\<lambda>vdenom.
       Inr (scale (Fin (1 - 1 / real npatch))
              (gram (total_len corrs) (center (total_len corrs) (mat_div vnum vdenom))))))))"

subsection \<open>Sample covariance\<close>

definition sample_pairs :: "nat \<Rightarrow> nat \<Rightarrow> pair list \<Rightarrow> error + pair list list" where
  "sample_pairs n1 n2 pairs =
     (if n2 = 1 then Inr (map (\<lambda>i. [(i, 0)]) [0..<n1])
      else if n1 = 1 then Inr (map (\<lambda>i. [(0, i)]) [0..<n2])
      else if n1 \<noteq> n2 then Inl AssertionError
      else Inr (map (\<lambda>i. [(j, k). (j, k) \<leftarrow> pairs, j = i]) [0..<n1]))"

text \<open>\<^verbatim>\<open>(w * v.T).dot(v)\<close> for the row weights \<open>w\<close>.\<close>

definition weighted_gram :: "nat \<Rightarrow> npvec \<Rightarrow> npmat \<Rightarrow> npmat" where
  "weighted_gram n w v =
     map (\<lambda>i. map (\<lambda>j. np_sum (map2 (\<lambda>wr row. np_mul (np_mul wr (row ! i)) (row ! j)) w v))
                [0..<n]) [0..<n]"

text \<open>
  The factor \<^verbatim>\<open>1./(npatch-1)\<close> divides by a Python integer, which raises for a zero
  divisor; \<^verbatim>\<open>w /= np.sum(w)\<close> divides arrays.
\<close>

definition cov_sample :: "corr list \<Rightarrow> error + npmat" where
  "cov_sample corrs =
     ebind (get_patch_nums corrs) (\<lambda>(npatch, triples).
     ebind (design_matrices sample_pairs corrs triples) (\<lambda>nd.
     ebind (hstack (map fst nd)) (\<lambda>vnum.
     ebind (hstack (map snd nd)) (\<lambda>vdenom.
       let v = mat_div vnum vdenom;
           w0 = map sum_list vdenom;
           w = map (\<lambda>x. np_div (Fin x) (Fin (sum_list w0))) w0
       in ebind (py_div 1 (real npatch - 1)) (\<lambda>f.
            Inr (scale (Fin f) (weighted_gram (total_len corrs) w
                                  (center (total_len corrs) v))))))))"

subsection \<open>Bootstrap\<close>

text \<open>
  The source of randomness is a parameter: \<open>rng k j\<close> is the raw value behind entry
  \<open>j\<close> of the \<open>k\<close>-th call of \<^verbatim>\<open>np.random.randint(npatch, size=npatch)\<close> in
  one run of an estimator. The call returns \<open>npatch\<close> indices below \<open>npatch\<close>.
\<close>

definition randint :: "(nat \<Rightarrow> nat \<Rightarrow> nat) \<Rightarrow> nat \<Rightarrow> nat \<Rightarrow> nat list" where
  "randint rng k npatch = map (\<lambda>j. rng k j mod npatch) [0..<npatch]"

text \<open>\<^verbatim>\<open>np.max([c.num_bootstrap for c in corrs])\<close>, for a non-empty list.\<close>

definition max_num_bootstrap :: "corr list \<Rightarrow> int" where
  "max_num_bootstrap corrs = fold max (map num_bootstrap (tl corrs)) (num_bootstrap (hd corrs))"

text \<open>
  Line 960: the statistic of one resampling, a quotient of arrays (not-a-number or an
  infinity where the summed weight is zero).
\<close>

definition resample :: "nat \<Rightarrow> mat \<Rightarrow> mat \<Rightarrow> nat list \<Rightarrow> npvec" where
  "resample n vnum vdenom indx =
     vec_div (np_sum_rows n (map (\<lambda>i. vnum ! i) indx))
             (np_sum_rows n (map (\<lambda>i. vdenom ! i) indx))"

text \<open>
  Lines 933-960: the matrix \<open>v\<close> of the resampled statistics, one row per resampling.
  \<^verbatim>\<open>np.empty\<close> refuses a negative number of rows.
\<close>

definition bootstrap_samples :: "(nat \<Rightarrow> nat \<Rightarrow> nat) \<Rightarrow> corr list \<Rightarrow> error + npmat" where
  "bootstrap_samples rng corrs =
     ebind (get_patch_nums corrs) (\<lambda>(npatch, triples).
     ebind (design_matrices sample_pairs corrs triples) (\<lambda>nd.
     ebind (hstack (map fst nd)) (\<lambda>vnum.
     ebind (hstack (map snd nd)) (\<lambda>vdenom.
       let nboot = max_num_bootstrap corrs in
       if nboot < 0 then Inl (ValueError ''negative dimensions are not allowed'')
       else Inr (map (\<lambda>k. resample (total_len corrs) vnum vdenom (randint rng k npatch))
                   [0..<nat nboot])))))"

text \<open>
  The factor \<^verbatim>\<open>1./(nboot-1)\<close> of lines 963 and 1007. The divisor is a numpy integer,
  so a zero divisor raises no exception: for \<open>nboot = 1\<close> the factor is infinite.
\<close>

definition bootstrap_factor :: "int \<Rightarrow> npfloat" where
  "bootstrap_factor nboot = np_div (Fin 1) (Fin (real_of_int nboot - 1))"

text \<open>Lines 961-964.\<close>

definition cov_bootstrap :: "(nat \<Rightarrow> nat \<Rightarrow> nat) \<Rightarrow> corr list \<Rightarrow> error + npmat" where
  "cov_bootstrap rng corrs =
     ebind (bootstrap_samples rng corrs) (\<lambda>v.
       Inr (scale (bootstrap_factor (max_num_bootstrap corrs))
              (gram (total_len corrs) (center (total_len corrs) v))))"

subsection \<open>The second bootstrap\<close>

text \<open>Lines 985-998: the pairs of one resampling with the drawn indices \<open>indx\<close>.\<close>

definition bootstrap2_pairs :: "nat \<Rightarrow> nat \<Rightarrow> pair list \<Rightarrow> nat list \<Rightarrow> error + pair list" where
  "bootstrap2_pairs n1 n2 pairs indx =
     (if n2 = 1 then Inr [(i, 0). i \<leftarrow> indx]
      else if n1 = 1 then Inr [(0, i). i \<leftarrow> indx]
      else if n1 \<noteq> n2 then Inl AssertionError
      else Inr ([(i, i). i \<leftarrow> indx]
                @ [(i, j). i \<leftarrow> indx, j \<leftarrow> indx, i \<noteq> j \<and> (i, j) \<in> set pairs]))"

text \<open>
  Lines 981-1002: the design matrices. The correlation object at position \<open>ci\<close> uses
  the calls \<open>ci * nboot, ..., ci * nboot + nboot - 1\<close> of the random source.
\<close>

definition bootstrap2_design ::
  "(nat \<Rightarrow> nat \<Rightarrow> nat) \<Rightarrow> nat \<Rightarrow> nat \<Rightarrow> corr list \<Rightarrow> (nat \<times> nat \<times> pair list) list
     \<Rightarrow> error + (mat \<times> mat) list" where
  "bootstrap2_design rng npatch nboot corrs triples =
     emap (\<lambda>(ci, c, n1, n2, pairs).
        ebind (emap (\<lambda>k. bootstrap2_pairs n1 n2 pairs (randint rng (ci * nboot + k) npatch))
                 [0..<nboot])
          (make_cov_design_matrix c))
       (List.enumerate 0 (zip corrs triples))"

definition bootstrap2_samples :: "(nat \<Rightarrow> nat \<Rightarrow> nat) \<Rightarrow> corr list \<Rightarrow> error + npmat" where
  "bootstrap2_samples rng corrs =
     ebind (get_patch_nums corrs) (\<lambda>(npatch, triples).
     ebind (bootstrap2_design rng npatch (nat (max_num_bootstrap corrs)) corrs triples) (\<lambda>nd.
     ebind (hstack (map fst nd)) (\<lambda>vnum.
     ebind (hstack (map snd nd)) (\<lambda>vdenom. Inr (mat_div vnum vdenom)))))"

definition cov_bootstrap2 :: "(nat \<Rightarrow> nat \<Rightarrow> nat) \<Rightarrow> corr list \<Rightarrow> error + npmat" where
  "cov_bootstrap2 rng corrs =
     ebind (bootstrap2_samples rng corrs) (\<lambda>v.
       Inr (scale (bootstrap_factor (max_num_bootstrap corrs))
              (gram (total_len corrs) (center (total_len corrs) v))))"

subsection \<open>The entry point\<close>

text \<open>
  The shot-noise matrix has finite entries by construction (its quotients are guarded
  by a mask).
\<close>

definition estimate_multi_cov ::
  "(nat \<Rightarrow> nat \<Rightarrow> nat) \<Rightarrow> corr list \<Rightarrow> string \<Rightarrow> error + npmat" where
  "estimate_multi_cov rng corrs method =
     (if method = ''shot'' then ebind (cov_shot corrs) (\<lambda>C. Inr (map (map Fin) C))
      else if method = ''jackknife'' then cov_jackknife corrs
      else if method = ''bootstrap'' then cov_bootstrap rng corrs
      else if method = ''bootstrap2'' then cov_bootstrap2 rng corrs
      else if method = ''sample'' then cov_sample corrs
      else Inl (ValueError (''Invalid method: '' @ method)))"

section \<open>Patch-wise accumulation\<close>

text \<open>
  A catalog, as far as the accumulation looks at it: its patch number, if it has one.
  The pair counting itself is outside the source: \<open>pa c\<close> stands for the arrays that
  \<^verbatim>\<open>temp.process_auto(c, ...)\<close> leaves in a cleared \<^verbatim>\<open>temp\<close>, and \<open>pc c1 c2\<close>
  for those of \<^verbatim>\<open>temp.process_cross(c1, c2, ...)\<close>; both are parameters.
\<close>

record 'd catalog =
  patch :: "nat option"
  cat_data :: 'd

text \<open>
  Modelled from the spec: \<^verbatim>\<open>__iadd__\<close> is defined by the derived classes, which are
  not in the source; the merge of the specification is the elementwise sum of the arrays.
\<close>

definition iadd :: "corr \<Rightarrow> presult \<Rightarrow> corr" where
  "iadd s t = s \<lparr> xi := map2 (+) (xi s) (xi t),
                  weight := map2 (+) (weight s) (weight t),
                  npairs := map2 (+) (npairs s) (npairs t) \<rparr>"

text \<open>\<^verbatim>\<open>i = c.patch if c.patch is not None else ii\<close> for an item of \<^verbatim>\<open>enumerate\<close>.\<close>

definition patch_id :: "nat \<times> 'd catalog \<Rightarrow> nat" where
  "patch_id e = (case patch (snd e) of None \<Rightarrow> fst e | Some p \<Rightarrow> p)"

text \<open>
  \<^verbatim>\<open>self.results[(i,j)] = temp.copy(); self += temp\<close>. Assigning to a key of a
  dictionary replaces the value of a key that is present and appends a new key.
\<close>

definition store_result :: "pair \<Rightarrow> presult \<Rightarrow> corr \<Rightarrow> corr" where
  "store_result k t s = iadd (s \<lparr> results := AList.update k t (results s) \<rparr>) t"

text \<open>
  The state of the accumulation is the object \<^verbatim>\<open>self\<close> together with the list of
  the arguments with which \<^verbatim>\<open>self._add_tot\<close> has been called so far. The hook
  \<^verbatim>\<open>_add_tot\<close> is a parameter \<open>add_tot\<close>, since the derived classes override it;
  in the base class it does nothing.
\<close>

type_synonym accum = "corr \<times> presult list"

definition base_add_tot :: "corr \<Rightarrow> presult \<Rightarrow> corr" where
  "base_add_tot s t = s"

text \<open>Lines 471-482: the body of the inner loop of \<^verbatim>\<open>_process_all_auto\<close>.\<close>

definition auto_cross_step ::
  "(corr \<Rightarrow> presult \<Rightarrow> corr) \<Rightarrow> ('d catalog \<Rightarrow> 'd catalog \<Rightarrow> presult)
     \<Rightarrow> nat \<times> 'd catalog \<Rightarrow> nat \<times> 'd catalog \<Rightarrow> accum \<Rightarrow> accum" where
  "auto_cross_step add_tot pc e1 e2 st =
     (let i = patch_id e1; j = patch_id e2 in
      if i < j then
        (let temp = pc (snd e1) (snd e2) in
         if sum_list (npairs temp) > 0
         then (store_result (i, j) temp (fst st), snd st)
         else (add_tot (fst st) temp, snd st @ [temp]))
      else st)"

text \<open>Lines 464-482: the body of the outer loop.\<close>

definition auto_step ::
  "(corr \<Rightarrow> presult \<Rightarrow> corr) \<Rightarrow> ('d catalog \<Rightarrow> presult)
     \<Rightarrow> ('d catalog \<Rightarrow> 'd catalog \<Rightarrow> presult)
     \<Rightarrow> 'd catalog list \<Rightarrow> nat \<times> 'd catalog \<Rightarrow> accum \<Rightarrow> accum" where
  "auto_step add_tot pa pc cat1 e1 st =
     (let i = patch_id e1; temp = pa (snd e1) in
      fold (auto_cross_step add_tot pc e1) (List.enumerate 0 cat1)
        (store_result (i, i) temp (fst st), snd st))"

text \<open>
  \<^verbatim>\<open>_process_all_auto\<close>. With a single catalog the object processes it directly,
  which adds the computed arrays to its own, and records nothing.
\<close>

definition process_all_auto ::
  "(corr \<Rightarrow> presult \<Rightarrow> corr) \<Rightarrow> ('d catalog \<Rightarrow> presult)
     \<Rightarrow> ('d catalog \<Rightarrow> 'd catalog \<Rightarrow> presult)
     \<Rightarrow> 'd catalog list \<Rightarrow> corr \<Rightarrow> accum" where
  "process_all_auto add_tot pa pc cat1 s =
     (if length cat1 = 1 then (iadd s (pa (hd cat1)), [])
      else fold (auto_step add_tot pa pc cat1) (List.enumerate 0 cat1) (s, []))"

text \<open>Lines 499-509: the body of the inner loop of \<^verbatim>\<open>_process_all_cross\<close>.\<close>

definition cross_step ::
  "(corr \<Rightarrow> presult \<Rightarrow> corr) \<Rightarrow> ('d catalog \<Rightarrow> 'd catalog \<Rightarrow> presult)
     \<Rightarrow> nat \<times> 'd catalog \<Rightarrow> nat \<times> 'd catalog \<Rightarrow> accum \<Rightarrow> accum" where
  "cross_step add_tot pc e1 e2 st =
     (let i = patch_id e1; j = patch_id e2; temp = pc (snd e1) (snd e2) in
      if i = j \<or> sum_list (npairs temp) > 0
      then (store_result (i, j) temp (fst st), snd st)
      else (add_tot (fst st) temp, snd st @ [temp]))"

text \<open>
  \<^verbatim>\<open>_process_all_cross\<close> for a configuration without \<^verbatim>\<open>pairwise\<close> (the
  default); the pairwise branch is not modelled. With a single catalog on each side the
  object processes the pair directly and records nothing.
\<close>

definition process_all_cross ::
  "(corr \<Rightarrow> presult \<Rightarrow> corr) \<Rightarrow> ('d catalog \<Rightarrow> 'd catalog \<Rightarrow> presult)
     \<Rightarrow> 'd catalog list \<Rightarrow> 'd catalog list \<Rightarrow> corr \<Rightarrow> accum" where
  "process_all_cross add_tot pc cat1 cat2 s =
     (if length cat1 = 1 \<and> length cat2 = 1 then (iadd s (pc (hd cat1) (hd cat2)), [])
      else fold (\<lambda>e1. fold (cross_step add_tot pc e1) (List.enumerate 0 cat2))
             (List.enumerate 0 cat1) (s, []))"

subsection \<open>Vocabulary for the properties of the resolution\<close>

text \<open>
  The layout that the documentation gives for the logarithmic bins, in its own words:
  centre \<open>i\<close> lies at \<open>log(min_sep) + bin_size/2 + i * bin_size\<close> in the logarithm,
  and the edges are the centres divided and multiplied by \<open>exp(bin_size/2)\<close>.
\<close>

definition center_log :: "binned \<Rightarrow> nat \<Rightarrow> real" where
  "center_log r i = ln (min_sep r) + bin_size r / 2 + real i * bin_size r"

definition log_layout_spec :: "binned \<Rightarrow> bool" where
  "log_layout_spec r \<longleftrightarrow>
     geom r = Radial
       (map (\<lambda>i. Fin (center_log r i)) [0..<nat (nbins r)])
       (map (\<lambda>i. exp (center_log r i)) [0..<nat (nbins r)])
       (map (\<lambda>i. exp (center_log r i) / exp (bin_size r / 2)) [0..<nat (nbins r)])
       (map (\<lambda>i. exp (center_log r i) * exp (bin_size r / 2)) [0..<nat (nbins r)])"

definition scenario_log :: config where
  "scenario_log = \<lparr> cfg_bin_type = Log, cfg_nbins = Some 5, cfg_bin_size = None,
     cfg_min_sep = Some 1, cfg_max_sep = Some 10, cfg_bin_slop = None, cfg_sep_units = 1 \<rparr>"

text \<open>How many of the parameters a configuration supplies.\<close>

definition given :: "'a option \<Rightarrow> nat" where
  "given x = (case x of None \<Rightarrow> 0 | Some _ \<Rightarrow> 1)"

definition n_given :: "config \<Rightarrow> nat" where
  "n_given c = given (cfg_nbins c) + given (cfg_bin_size c) + given (cfg_min_sep c)
                 + given (cfg_max_sep c)"

definition n_given_twod :: "config \<Rightarrow> nat" where
  "n_given_twod c = given (cfg_nbins c) + given (cfg_bin_size c) + given (cfg_max_sep c)"

definition config_error :: "error \<Rightarrow> bool" where
  "config_error e = (case e of TypeError _ \<Rightarrow> True | ValueError _ \<Rightarrow> True | _ \<Rightarrow> False)"

definition fails_config :: "config \<Rightarrow> bool" where
  "fails_config c = (case resolve c of Inl e \<Rightarrow> config_error e | Inr _ \<Rightarrow> False)"


definition twod_with_min_sep :: config where
  "twod_with_min_sep = \<lparr> cfg_bin_type = TwoD, cfg_nbins = None, cfg_bin_size = Some 1,
     cfg_min_sep = Some 1, cfg_max_sep = Some 2, cfg_bin_slop = None, cfg_sep_units = 1 \<rparr>"

definition all_four_log :: config where
  "all_four_log = \<lparr> cfg_bin_type = Log, cfg_nbins = Some 5, cfg_bin_size = Some 1,
     cfg_min_sep = Some 1, cfg_max_sep = Some 10, cfg_bin_slop = None, cfg_sep_units = 1 \<rparr>"

definition twod_only_max_sep :: config where
  "twod_only_max_sep = \<lparr> cfg_bin_type = TwoD, cfg_nbins = None, cfg_bin_size = None,
     cfg_min_sep = None, cfg_max_sep = Some 2, cfg_bin_slop = None, cfg_sep_units = 1 \<rparr>"

definition log_min_above_max :: config where
  "log_min_above_max = \<lparr> cfg_bin_type = Log, cfg_nbins = Some 5, cfg_bin_size = None,
     cfg_min_sep = Some 2, cfg_max_sep = Some 1, cfg_bin_slop = None, cfg_sep_units = 1 \<rparr>"

definition twod_negative_max_sep :: config where
  "twod_negative_max_sep = \<lparr> cfg_bin_type = TwoD, cfg_nbins = None, cfg_bin_size = Some 1,
     cfg_min_sep = None, cfg_max_sep = Some (- 1), cfg_bin_slop = None, cfg_sep_units = 1 \<rparr>"

text \<open>
  The two log-bin-size quantities of lines 343-344, 367-368, 393-394 and 409-411 as
  functions of the resolved attributes, and the minimum log-bin-size without the unit
  factor of line 411.
\<close>

definition max_log_bin_size_of :: "bin_type \<Rightarrow> binned \<Rightarrow> real" where
  "max_log_bin_size_of t r =
     (case t of Log \<Rightarrow> bin_size r | _ \<Rightarrow> bin_size r / (min_sep r + bin_size r / 2))"

definition min_log_bin_size_of :: "config \<Rightarrow> binned \<Rightarrow> real" where
  "min_log_bin_size_of c r =
     (case cfg_bin_type c of Log \<Rightarrow> bin_size r
      | _ \<Rightarrow> bin_size r / max_sep r * cfg_sep_units c)"

definition claimed_min_log_bin_size :: "bin_type \<Rightarrow> binned \<Rightarrow> real" where
  "claimed_min_log_bin_size t r =
     (case t of Log \<Rightarrow> bin_size r | _ \<Rightarrow> bin_size r / max_sep r)"

text \<open>A linear binning in degrees: the unit factor is \<open>pi / 180\<close>.\<close>

definition linear_degrees :: config where
  "linear_degrees = \<lparr> cfg_bin_type = Linear, cfg_nbins = Some 1, cfg_bin_size = None,
     cfg_min_sep = Some 1, cfg_max_sep = Some 2, cfg_bin_slop = None,
     cfg_sep_units = pi / 180 \<rparr>"

definition linear_degrees_resolved :: binned where
  "linear_degrees_resolved = \<lparr> nbins = 1, bin_size = 1, min_sep = 1, max_sep = 2,
     geom = Radial [np_log (3/2)] [3/2] [1] [2], priv_nbins = 1,
     priv_min_sep = pi / 180, priv_max_sep = 2 * (pi / 180), priv_bin_size = pi / 180,
     bin_slop = 3 / 20, b = (pi / 360) * (3 / 20), slop_warning = False \<rparr>"

subsection \<open>Vocabulary for the properties of the estimators\<close>

text \<open>The numbers of distinct first and second patch indices among the keys of a store.\<close>

definition npatch1_of :: "corr \<Rightarrow> nat" where
  "npatch1_of c = count_distinct (map fst (keys c))"

definition npatch2_of :: "corr \<Rightarrow> nat" where
  "npatch2_of c = count_distinct (map snd (keys c))"

text \<open>The methods that work on patch-wise results.\<close>

definition patch_methods :: "string set" where
  "patch_methods = {''jackknife'', ''sample'', ''bootstrap'', ''bootstrap2''}"

text \<open>
  The weights and the shot variance numerators of a list of correlation objects, laid out
  along the concatenated data vector.
\<close>

definition flat_weight :: "corr list \<Rightarrow> vec" where
  "flat_weight corrs = concat (map weight corrs)"

definition flat_var_num :: "corr list \<Rightarrow> vec" where
  "flat_var_num corrs = concat (map (\<lambda>c. replicate (getStatLen c) (var_num c)) corrs)"

text \<open>
  The covariance of the rows of a real matrix \<open>v\<close> with \<open>n\<close> columns, in the words of
  the documentation of the estimators: \<open>f * Sum_i (v_i - vmean) (v_i - vmean)^T\<close>, where
  \<open>vmean\<close> is the mean of the rows.
\<close>

definition mean_of :: "mat \<Rightarrow> nat \<Rightarrow> real" where
  "mean_of v k = sum_list (map (\<lambda>row. row ! k) v) / real (length v)"

definition covariance_of :: "real \<Rightarrow> nat \<Rightarrow> mat \<Rightarrow> mat" where
  "covariance_of f n v =
     map (\<lambda>k. map (\<lambda>l. f * sum_list (map (\<lambda>row.
               (row ! k - mean_of v k) * (row ! l - mean_of v l)) v))
            [0..<n])
       [0..<n]"

text \<open>Small stores with one bin, used as concrete instances.\<close>

definition patch_result :: "real \<Rightarrow> real \<Rightarrow> presult" where
  "patch_result x w = \<lparr> xi = [x], weight = [w], npairs = [1] \<rparr>"

definition two_patch_store :: corr where
  "two_patch_store = \<lparr> xi = [4], weight = [4], npairs = [3],
     results = [((0, 0), patch_result 1 1), ((0, 1), patch_result 1 1), ((1, 1), patch_result 2 2)],
     getStatLen = 1, var_num = 2, num_bootstrap = 2 \<rparr>"

definition empty_store :: corr where
  "empty_store = two_patch_store \<lparr> results := [] \<rparr>"

definition mismatched_store :: corr where
  "mismatched_store = two_patch_store \<lparr> results :=
     [((0, 0), patch_result 1 1), ((1, 1), patch_result 1 1), ((2, 1), patch_result 1 1)] \<rparr>"

definition three_patch_store :: corr where
  "three_patch_store = \<lparr> xi = [1], weight = [6], npairs = [6],
     results = [((0, 0), patch_result 0 1), ((0, 1), patch_result 1 1), ((0, 2), patch_result 0 1),
                ((1, 1), patch_result 0 1), ((1, 2), patch_result 0 1), ((2, 2), patch_result 0 1)],
     getStatLen = 1, var_num = 2, num_bootstrap = 2 \<rparr>"

definition rng0 :: "nat \<Rightarrow> nat \<Rightarrow> nat" where
  "rng0 k j = k + j"

text \<open>A store whose only bin has no weight in any patch pair.\<close>

definition empty_bin_store :: corr where
  "empty_bin_store = two_patch_store \<lparr> results :=
     [((0, 0), patch_result 0 0), ((0, 1), patch_result 0 0), ((1, 1), patch_result 0 0)] \<rparr>"

text \<open>Two correlation objects over the same patches with different settings of \<^verbatim>\<open>num_bootstrap\<close>.\<close>

definition bootstrap_pair :: "corr list" where
  "bootstrap_pair = [three_patch_store, three_patch_store\<lparr>num_bootstrap := 3\<rparr>]"


subsection \<open>Vocabulary for the jackknife\<close>

text \<open>
  The invariant of a result store that the estimators rely on: the keys are distinct (it
  is a dictionary) and not empty, the first indices are \<open>0..n1-1\<close>, the second indices
  are \<open>0..n2-1\<close>, and \<open>n1 = n2\<close> or one of them is 1.
\<close>

definition store_invariant :: "corr \<Rightarrow> bool" where
  "store_invariant c \<longleftrightarrow>
     distinct (keys c) \<and> keys c \<noteq> []
     \<and> set (map fst (keys c)) = {0..<npatch1_of c}
     \<and> set (map snd (keys c)) = {0..<npatch2_of c}
     \<and> (npatch1_of c = npatch2_of c \<or> npatch1_of c = 1 \<or> npatch2_of c = 1)"

definition npatch_of :: "corr \<Rightarrow> nat" where
  "npatch_of c = max (npatch1_of c) (npatch2_of c)"

text \<open>
  The jackknife estimate in the words of its documentation. Sample \<open>i\<close> takes the
  stored pairs \<open>(j,k)\<close> with \<open>j \<noteq> i\<close> and \<open>k \<noteq> i\<close>; where one axis has a single
  patch, the index of the other axis alone is compared. \<open>jk_stat c i\<close> is the ratio of
  the summed statistic to the summed weight over these pairs, and the covariance is
  \<open>(1 - 1/npatch) * Sum_i (v_i - vmean) (v_i - vmean)^T\<close>.
\<close>

definition jk_selected :: "corr \<Rightarrow> nat \<Rightarrow> pair \<Rightarrow> bool" where
  "jk_selected c i p =
     (if npatch2_of c = 1 then fst p \<noteq> i
      else if npatch1_of c = 1 then snd p \<noteq> i
      else fst p \<noteq> i \<and> snd p \<noteq> i)"

definition jk_num :: "corr \<Rightarrow> nat \<Rightarrow> nat \<Rightarrow> real" where
  "jk_num c i k =
     sum_list (map (\<lambda>x. xi (snd x) ! k) (filter (\<lambda>x. jk_selected c i (fst x)) (results c)))"

definition jk_denom :: "corr \<Rightarrow> nat \<Rightarrow> nat \<Rightarrow> real" where
  "jk_denom c i k =
     sum_list (map (\<lambda>x. weight (snd x) ! k) (filter (\<lambda>x. jk_selected c i (fst x)) (results c)))"

text \<open>Every sample has a nonzero summed weight in every bin.\<close>

definition jk_defined :: "corr \<Rightarrow> bool" where
  "jk_defined c \<longleftrightarrow> (\<forall>i < npatch_of c. \<forall>k < getStatLen c. jk_denom c i k \<noteq> 0)"

definition jk_stat :: "corr \<Rightarrow> nat \<Rightarrow> nat \<Rightarrow> real" where
  "jk_stat c i k = jk_num c i k / jk_denom c i k"

definition jk_mean :: "corr \<Rightarrow> nat \<Rightarrow> real" where
  "jk_mean c k = sum_list (map (\<lambda>i. jk_stat c i k) [0..<npatch_of c]) / real (npatch_of c)"

definition jackknife_spec :: "corr \<Rightarrow> mat" where
  "jackknife_spec c =
     map (\<lambda>k. map (\<lambda>l. (1 - 1 / real (npatch_of c)) *
             sum_list (map (\<lambda>i. (jk_stat c i k - jk_mean c k) * (jk_stat c i l - jk_mean c l))
                         [0..<npatch_of c]))
            [0..<getStatLen c])
       [0..<getStatLen c]"

text \<open>
  The value stored under a key that is present, and the pairs of sample \<open>i\<close> as
  \<^verbatim>\<open>_cov_jackknife\<close> lists them; both are used in the proofs only.
\<close>

definition lookup :: "corr \<Rightarrow> pair \<Rightarrow> presult" where
  "lookup c p = (case map_of (results c) p of Some r \<Rightarrow> r | None \<Rightarrow> \<lparr>xi = [], weight = [], npairs = []\<rparr>)"

definition jk_row :: "corr \<Rightarrow> nat \<Rightarrow> pair list" where
  "jk_row c i =
     (if npatch2_of c = 1 then map (\<lambda>j. (j, 0)) (filter (\<lambda>j. j \<noteq> i) [0..<npatch1_of c])
      else if npatch1_of c = 1 then map (\<lambda>j. (0, j)) (filter (\<lambda>j. j \<noteq> i) [0..<npatch2_of c])
      else filter (\<lambda>p. fst p \<noteq> i \<and> snd p \<noteq> i) (keys c))"

text \<open>
  Renumbering the patches of a store by \<open>\<pi>\<close>; an axis with a single patch keeps its
  index 0.
\<close>

definition relabel_key :: "corr \<Rightarrow> (nat \<Rightarrow> nat) \<Rightarrow> pair \<Rightarrow> pair" where
  "relabel_key c \<pi> p =
     (if npatch1_of c = 1 then fst p else \<pi> (fst p),
      if npatch2_of c = 1 then snd p else \<pi> (snd p))"

definition relabel_patches :: "(nat \<Rightarrow> nat) \<Rightarrow> corr \<Rightarrow> corr" where
  "relabel_patches \<pi> c = c \<lparr> results := map (\<lambda>x. (relabel_key c \<pi> (fst x), snd x)) (results c) \<rparr>"

definition swap01 :: "nat \<Rightarrow> nat" where
  "swap01 i = (if i = 0 then 1 else if i = 1 then 0 else i)"


subsection \<open>Vocabulary for the second bootstrap\<close>

text \<open>
  The second bootstrap in the words of its documentation, for one store in the symmetric
  case. A draw contributes the auto-pair of every drawn index and the stored cross pairs
  of the drawn indices, each as often as the loops over the draw produce it; the
  statistic of the draw is the ratio of the statistic summed over these pairs to the
  weight summed over them; the covariance is
  \<open>1/(nboot - 1) * Sum_k (v_k - vmean) (v_k - vmean)^T\<close>.
\<close>

definition bs2_draw_pairs :: "corr \<Rightarrow> nat list \<Rightarrow> pair list" where
  "bs2_draw_pairs c indx =
     [(i, i). i \<leftarrow> indx] @ [(i, j). i \<leftarrow> indx, j \<leftarrow> indx, i \<noteq> j \<and> (i, j) \<in> set (keys c)]"

definition bs2_num :: "corr \<Rightarrow> nat list \<Rightarrow> nat \<Rightarrow> real" where
  "bs2_num c indx k = sum_list (map (\<lambda>p. xi (lookup c p) ! k) (bs2_draw_pairs c indx))"

definition bs2_denom :: "corr \<Rightarrow> nat list \<Rightarrow> nat \<Rightarrow> real" where
  "bs2_denom c indx k = sum_list (map (\<lambda>p. weight (lookup c p) ! k) (bs2_draw_pairs c indx))"

definition bs2_stat :: "corr \<Rightarrow> nat list \<Rightarrow> nat \<Rightarrow> real" where
  "bs2_stat c indx k = bs2_num c indx k / bs2_denom c indx k"

text \<open>Every resampling has a nonzero summed weight in every bin.\<close>

definition bs2_defined :: "(nat \<Rightarrow> nat \<Rightarrow> nat) \<Rightarrow> corr \<Rightarrow> bool" where
  "bs2_defined rng c \<longleftrightarrow>
     (\<forall>d < nat (num_bootstrap c). \<forall>k < getStatLen c.
        bs2_denom c (randint rng d (npatch_of c)) k \<noteq> 0)"

definition bs2_mean :: "(nat \<Rightarrow> nat \<Rightarrow> nat) \<Rightarrow> corr \<Rightarrow> nat \<Rightarrow> real" where
  "bs2_mean rng c k =
     sum_list (map (\<lambda>d. bs2_stat c (randint rng d (npatch_of c)) k)
                 [0..<nat (num_bootstrap c)])
     / real (length [0..<nat (num_bootstrap c)])"

definition bootstrap2_spec :: "(nat \<Rightarrow> nat \<Rightarrow> nat) \<Rightarrow> corr \<Rightarrow> mat" where
  "bootstrap2_spec rng c =
     map (\<lambda>k. map (\<lambda>l. 1 / (real_of_int (num_bootstrap c) - 1) *
             sum_list (map (\<lambda>d.
                 (bs2_stat c (randint rng d (npatch_of c)) k - bs2_mean rng c k)
               * (bs2_stat c (randint rng d (npatch_of c)) l - bs2_mean rng c l))
               [0..<nat (num_bootstrap c)]))
            [0..<getStatLen c])
       [0..<getStatLen c]"

text \<open>A random source whose first draw of three indices is \<open>[0, 0, 1]\<close>.\<close>

definition rng_repeat :: "nat \<Rightarrow> nat \<Rightarrow> nat" where
  "rng_repeat d j = (if d = 0 then (if j = 2 then 1 else 0) else j)"


subsection \<open>Vocabulary for the accumulation\<close>

text \<open>
  The test of lines 477 and 504 on a computed result and its key: the key is on the
  diagonal, or the pair counts sum to a positive number.
\<close>

definition recorded :: "pair \<times> presult \<Rightarrow> bool" where
  "recorded x \<longleftrightarrow> fst (fst x) = snd (fst x) \<or> 0 < sum_list (npairs (snd x))"

text \<open>
  The results that the accumulation computes, with their keys, in the order of
  computation: in auto mode the auto-correlation of every patch and the cross-correlation
  of every pair of patches \<open>i < j\<close>; in cross mode every pair of a patch of the first
  list with a patch of the second.
\<close>

definition auto_schedule ::
  "('d catalog \<Rightarrow> presult) \<Rightarrow> ('d catalog \<Rightarrow> 'd catalog \<Rightarrow> presult)
     \<Rightarrow> 'd catalog list \<Rightarrow> (pair \<times> presult) list" where
  "auto_schedule pa pc cat1 =
     concat (map (\<lambda>e1.
        ((patch_id e1, patch_id e1), pa (snd e1))
        # [((patch_id e1, patch_id e2), pc (snd e1) (snd e2)).
             e2 \<leftarrow> List.enumerate 0 cat1, patch_id e1 < patch_id e2])
       (List.enumerate 0 cat1))"

definition cross_schedule ::
  "('d catalog \<Rightarrow> 'd catalog \<Rightarrow> presult)
     \<Rightarrow> 'd catalog list \<Rightarrow> 'd catalog list \<Rightarrow> (pair \<times> presult) list" where
  "cross_schedule pc cat1 cat2 =
     [((patch_id e1, patch_id e2), pc (snd e1) (snd e2)).
        e1 \<leftarrow> List.enumerate 0 cat1, e2 \<leftarrow> List.enumerate 0 cat2]"

text \<open>One computed result: it is recorded and merged, or handed to the hook.\<close>

definition run_step :: "(corr \<Rightarrow> presult \<Rightarrow> corr) \<Rightarrow> pair \<times> presult \<Rightarrow> accum \<Rightarrow> accum" where
  "run_step add_tot x st =
     (if recorded x then (store_result (fst x) (snd x) (fst st), snd st)
      else (add_tot (fst st) (snd x), snd st @ [snd x]))"

text \<open>
  A hook that works on a side channel: it changes neither the store nor the arrays, and
  its effect does not depend on whether a result is recorded before or after it.
\<close>

definition side_channel_hook :: "(corr \<Rightarrow> presult \<Rightarrow> corr) \<Rightarrow> bool" where
  "side_channel_hook add_tot \<longleftrightarrow>
     (\<forall>s t. results (add_tot s t) = results s \<and> xi (add_tot s t) = xi s
            \<and> weight (add_tot s t) = weight s \<and> npairs (add_tot s t) = npairs s)
   \<and> (\<forall>k t t' s. add_tot (store_result k t s) t' = store_result k t (add_tot s t'))"

text \<open>The merge of a list of patch results into an array.\<close>

definition merged :: "(presult \<Rightarrow> vec) \<Rightarrow> presult list \<Rightarrow> vec \<Rightarrow> vec" where
  "merged arr rs v = fold (\<lambda>r v. map2 (+) v (arr r)) rs v"

text \<open>
  What the accumulation has done with the computed results, from an empty store: the
  store holds exactly the computed results that pass the test, in the order of
  computation; the hook was called on exactly the others; the object is the initial
  object with every stored result recorded and merged and then with the hook applied to
  the others; and each array is the initial array with the stored results merged in.
\<close>

definition accumulated ::
  "(corr \<Rightarrow> presult \<Rightarrow> corr) \<Rightarrow> corr \<Rightarrow> (pair \<times> presult) list \<Rightarrow> accum \<Rightarrow> bool" where
  "accumulated add_tot s computed st \<longleftrightarrow>
     results (fst st) = filter recorded computed
   \<and> (\<forall>k r. map_of (results (fst st)) k = Some r \<longleftrightarrow> (k, r) \<in> set computed \<and> recorded (k, r))
   \<and> snd st = map snd (filter (\<lambda>x. \<not> recorded x) computed)
   \<and> fst st = fold (\<lambda>t s. add_tot s t) (snd st)
                (fold (\<lambda>x. store_result (fst x) (snd x)) (results (fst st)) s)
   \<and> xi (fst st) = merged xi (map snd (results (fst st))) (xi s)
   \<and> weight (fst st) = merged weight (map snd (results (fst st))) (weight s)
   \<and> npairs (fst st) = merged npairs (map snd (results (fst st))) (npairs s)"

text \<open>Concrete instances: a hook that counts its calls, two catalogs, and results.\<close>

definition count_hook :: "corr \<Rightarrow> presult \<Rightarrow> corr" where
  "count_hook s t = s \<lparr> num_bootstrap := num_bootstrap s + 1 \<rparr>"

definition two_catalogs :: "unit catalog list" where
  "two_catalogs = [\<lparr> patch = Some 0, cat_data = () \<rparr>, \<lparr> patch = None, cat_data = () \<rparr>]"

definition no_pairs :: presult where
  "no_pairs = \<lparr> xi = [0], weight = [0], npairs = [0] \<rparr>"

definition zero_weight :: presult where
  "zero_weight = \<lparr> xi = [0], weight = [0], npairs = [2] \<rparr>"

definition cleared :: corr where
  "cleared = \<lparr> xi = [0], weight = [0], npairs = [0], results = [], getStatLen = 1,
     var_num = 0, num_bootstrap = 0 \<rparr>"


section \<open>Properties of the binning resolution\<close>

lemma ebind_Inr: "ebind m f = Inr y \<longleftrightarrow> (\<exists>x. m = Inr x \<and> f x = Inr y)"
  by (cases m) (simp_all add: ebind_def)

lemma py_div_Inr: "py_div a d = Inr q \<longleftrightarrow> d \<noteq> 0 \<and> q = a / d"
  by (auto simp: py_div_def)

lemma arrays_log_ok:
  assumes "0 < nb" "bs \<noteq> 0" "0 < mn"
  shows "\<exists>br. arrays_log (nb, bs, mn, mx) = Inr br \<and> br_nbins br = nb \<and> br_bin_size br = bs
     \<and> br_min_sep br = mn \<and> br_max_sep br = mx \<and>
     br_geom br = Radial
       (map (\<lambda>i. Fin (ln mn + bs / 2 + real i * bs)) [0..<nat nb])
       (map (\<lambda>i. exp (ln mn + bs / 2 + real i * bs)) [0..<nat nb])
       (map (\<lambda>i. exp (ln mn + bs / 2 + real i * bs) / exp (bs / 2)) [0..<nat nb])
       (map (\<lambda>i. exp (ln mn + bs / 2 + real i * bs) * exp (bs / 2)) [0..<nat nb])"
  using assms
  by (simp add: arrays_log_def linspace_def math_log_def py_div_def ebind_def Let_def o_def algebra_simps)

lemma finish_layout:
  assumes "br_geom br = Radial
       (map (\<lambda>i. Fin (ln (br_min_sep br) + br_bin_size br / 2 + real i * br_bin_size br)) [0..<nat (br_nbins br)])
       (map (\<lambda>i. exp (ln (br_min_sep br) + br_bin_size br / 2 + real i * br_bin_size br)) [0..<nat (br_nbins br)])
       (map (\<lambda>i. exp (ln (br_min_sep br) + br_bin_size br / 2 + real i * br_bin_size br) / exp (br_bin_size br / 2)) [0..<nat (br_nbins br)])
       (map (\<lambda>i. exp (ln (br_min_sep br) + br_bin_size br / 2 + real i * br_bin_size br) * exp (br_bin_size br / 2)) [0..<nat (br_nbins br)])"
  shows "log_layout_spec (finish c br)"
  using assms by (simp add: log_layout_spec_def finish_def Let_def center_log_def)

lemma resolve_log_ok:
  assumes "cfg_bin_type c = Log" "0 < cfg_sep_units c"
    and "read_params c = Inr p" "derive_log p = Inr (nb, bs, mn, mx)"
    and "0 < nb" "bs \<noteq> 0" "0 < mn"
  shows "\<exists>r. resolve c = Inr r \<and> nbins r = nb \<and> bin_size r = bs \<and> min_sep r = mn
           \<and> max_sep r = mx \<and> log_layout_spec r"
proof -
  obtain br where br: "arrays_log (nb, bs, mn, mx) = Inr br" "br_nbins br = nb"
    "br_bin_size br = bs" "br_min_sep br = mn" "br_max_sep br = mx"
    and g: "br_geom br = Radial
       (map (\<lambda>i. Fin (ln mn + bs / 2 + real i * bs)) [0..<nat nb])
       (map (\<lambda>i. exp (ln mn + bs / 2 + real i * bs)) [0..<nat nb])
       (map (\<lambda>i. exp (ln mn + bs / 2 + real i * bs) / exp (bs / 2)) [0..<nat nb])
       (map (\<lambda>i. exp (ln mn + bs / 2 + real i * bs) * exp (bs / 2)) [0..<nat nb])"
    using arrays_log_ok [OF assms(5-7)] by blast
  have r: "resolve c = Inr (finish c br)"
    using assms(1-4) br(1) by (simp add: resolve_def resolve_branch_def ebind_def math_log_def)
  have "log_layout_spec (finish c br)"
    by (rule finish_layout) (simp add: br g)
  moreover have "nbins (finish c br) = nb" "bin_size (finish c br) = bs"
    "min_sep (finish c br) = mn" "max_sep (finish c br) = mx"
    by (simp_all add: finish_def Let_def br)
  ultimately show ?thesis using r by simp
qed

lemma ceiling_pos_of_pos: "0 < (x::real) \<Longrightarrow> 0 < \<lceil>x\<rceil>"
  by linarith

text \<open>
  Claim C1. For a logarithmic binning that supplies exactly three of \<open>nbins\<close>,
  \<open>bin_size\<close>, \<open>min_sep\<close>, \<open>max_sep\<close> with valid values (positive separations,
  \<open>min_sep < max_sep\<close>, a positive number of bins, a nonzero bin size), the resolution
  succeeds and derives the missing parameter by the stated rule:
  \<open>nbins = ceil(log(max_sep/min_sep)/bin_size)\<close> with \<open>bin_size\<close> recomputed as
  \<open>log(max_sep/min_sep)/nbins\<close>; \<open>bin_size = log(max_sep/min_sep)/nbins\<close>;
  \<open>max_sep = min_sep * exp(nbins * bin_size)\<close>;
  \<open>min_sep = max_sep * exp(- nbins * bin_size)\<close>. In each case the bin centres are
  evenly spaced in the logarithm from \<open>log(min_sep) + bin_size/2\<close>, and the left and
  right edges are the centres divided and multiplied by \<open>exp(bin_size/2)\<close>. The
  scenario \<open>min_sep = 1\<close>, \<open>max_sep = 10\<close>, \<open>nbins = 5\<close> is the instance that
  follows the theorem: \<open>bin_size = log(10)/5\<close> and first centre
  \<open>exp(log(1) + 0.5 * bin_size)\<close>.
\<close>

theorem log_resolution:
  assumes "cfg_bin_type c = Log" "0 < cfg_sep_units c"
  shows
   "(\<forall>bs mn mx. cfg_nbins c = None \<and> cfg_bin_size c = Some bs \<and> cfg_min_sep c = Some mn
        \<and> cfg_max_sep c = Some mx \<and> 0 < mn \<and> mn < mx \<and> 0 < bs \<longrightarrow>
      (\<exists>r. resolve c = Inr r \<and> nbins r = \<lceil>ln (mx / mn) / bs\<rceil>
         \<and> bin_size r = ln (mx / mn) / real_of_int (nbins r)
         \<and> min_sep r = mn \<and> max_sep r = mx \<and> log_layout_spec r))
  \<and> (\<forall>nb mn mx. cfg_nbins c = Some nb \<and> cfg_bin_size c = None \<and> cfg_min_sep c = Some mn
        \<and> cfg_max_sep c = Some mx \<and> 0 < mn \<and> mn < mx \<and> 0 < nb \<longrightarrow>
      (\<exists>r. resolve c = Inr r \<and> nbins r = nb
         \<and> bin_size r = ln (mx / mn) / real_of_int nb
         \<and> min_sep r = mn \<and> max_sep r = mx \<and> log_layout_spec r))
  \<and> (\<forall>nb bs mn. cfg_nbins c = Some nb \<and> cfg_bin_size c = Some bs \<and> cfg_min_sep c = Some mn
        \<and> cfg_max_sep c = None \<and> 0 < mn \<and> 0 < nb \<and> bs \<noteq> 0 \<longrightarrow>
      (\<exists>r. resolve c = Inr r \<and> nbins r = nb \<and> bin_size r = bs \<and> min_sep r = mn
         \<and> max_sep r = mn * exp (real_of_int nb * bs) \<and> log_layout_spec r))
  \<and> (\<forall>nb bs mx. cfg_nbins c = Some nb \<and> cfg_bin_size c = Some bs \<and> cfg_min_sep c = None
        \<and> cfg_max_sep c = Some mx \<and> 0 < mx \<and> 0 < nb \<and> bs \<noteq> 0 \<longrightarrow>
      (\<exists>r. resolve c = Inr r \<and> nbins r = nb \<and> bin_size r = bs
         \<and> min_sep r = mx * exp (- real_of_int nb * bs) \<and> max_sep r = mx
         \<and> log_layout_spec r))"
proof (intro conjI allI impI)
  fix bs mn mx
  assume h: "cfg_nbins c = None \<and> cfg_bin_size c = Some bs \<and> cfg_min_sep c = Some mn
        \<and> cfg_max_sep c = Some mx \<and> 0 < mn \<and> mn < mx \<and> 0 < bs"
  define l where "l = ln (mx / mn)"
  define nb where "nb = \<lceil>l / bs\<rceil>"
  from h have "1 < mx / mn" by simp
  then have l: "0 < l" unfolding l_def by simp
  with h have nb: "0 < nb" unfolding nb_def by (intro ceiling_pos_of_pos) simp
  have rp: "read_params c = Inr (None, Some bs, Some mn, Some mx)"
    using h assms(1) by (simp add: read_params_def get_min_sep_def)
  have "\<not> mx / mn \<le> 0" "mn \<noteq> 0" using \<open>1 < mx / mn\<close> h by linarith+
  then have s: "py_div mx mn = Inr (mx / mn)" "math_log (mx / mn) = Inr l"
    "py_div l bs = Inr (l / bs)" "py_div l (real_of_int nb) = Inr (l / real_of_int nb)"
    using h nb by (simp_all add: py_div_def math_log_def l_def del: divide_le_0_iff)
  have dl: "derive_log (None, Some bs, Some mn, Some mx) = Inr (nb, l / real_of_int nb, mn, mx)"
    by (simp add: ebind_def s Let_def nb_def [symmetric])
  have "l / real_of_int nb \<noteq> 0" using l nb by simp
  from resolve_log_ok [OF assms rp dl nb this] h
  show "\<exists>r. resolve c = Inr r \<and> nbins r = \<lceil>ln (mx / mn) / bs\<rceil>
         \<and> bin_size r = ln (mx / mn) / real_of_int (nbins r)
         \<and> min_sep r = mn \<and> max_sep r = mx \<and> log_layout_spec r"
    unfolding l_def nb_def by auto
next
  fix nb mn mx
  assume h: "cfg_nbins c = Some nb \<and> cfg_bin_size c = None \<and> cfg_min_sep c = Some mn
        \<and> cfg_max_sep c = Some mx \<and> 0 < mn \<and> mn < mx \<and> 0 < nb"
  define l where "l = ln (mx / mn)"
  from h have "1 < mx / mn" by simp
  then have l: "0 < l" unfolding l_def by simp
  have rp: "read_params c = Inr (Some nb, None, Some mn, Some mx)"
    using h assms(1) by (simp add: read_params_def get_min_sep_def)
  have "\<not> mx / mn \<le> 0" "mn \<noteq> 0" using \<open>1 < mx / mn\<close> h by linarith+
  then have s: "py_div mx mn = Inr (mx / mn)" "math_log (mx / mn) = Inr l"
    "py_div l (real_of_int nb) = Inr (l / real_of_int nb)"
    using h by (simp_all add: py_div_def math_log_def l_def del: divide_le_0_iff)
  have dl: "derive_log (Some nb, None, Some mn, Some mx) = Inr (nb, l / real_of_int nb, mn, mx)"
    by (simp add: ebind_def s)
  have "l / real_of_int nb \<noteq> 0" using l h by simp
  from resolve_log_ok [OF assms rp dl _ this] h
  show "\<exists>r. resolve c = Inr r \<and> nbins r = nb
         \<and> bin_size r = ln (mx / mn) / real_of_int nb
         \<and> min_sep r = mn \<and> max_sep r = mx \<and> log_layout_spec r"
    unfolding l_def by auto
next
  fix nb bs mn
  assume h: "cfg_nbins c = Some nb \<and> cfg_bin_size c = Some bs \<and> cfg_min_sep c = Some mn
        \<and> cfg_max_sep c = None \<and> 0 < mn \<and> 0 < nb \<and> bs \<noteq> 0"
  have rp: "read_params c = Inr (Some nb, Some bs, Some mn, None)"
    using h assms(1) by (simp add: read_params_def get_min_sep_def)
  have dl: "derive_log (Some nb, Some bs, Some mn, None) = Inr (nb, bs, mn, exp (real_of_int nb * bs) * mn)"
    by simp
  from resolve_log_ok [OF assms rp dl] h
  show "\<exists>r. resolve c = Inr r \<and> nbins r = nb \<and> bin_size r = bs \<and> min_sep r = mn
         \<and> max_sep r = mn * exp (real_of_int nb * bs) \<and> log_layout_spec r"
    by (auto simp: mult.commute)
next
  fix nb bs mx
  assume h: "cfg_nbins c = Some nb \<and> cfg_bin_size c = Some bs \<and> cfg_min_sep c = None
        \<and> cfg_max_sep c = Some mx \<and> 0 < mx \<and> 0 < nb \<and> bs \<noteq> 0"
  have rp: "read_params c = Inr (Some nb, Some bs, None, Some mx)"
    using h assms(1) by (simp add: read_params_def get_min_sep_def)
  have dl: "derive_log (Some nb, Some bs, None, Some mx) = Inr (nb, bs, mx * exp (- real_of_int nb * bs), mx)"
    by simp
  have "0 < mx * exp (- real_of_int nb * bs)" using h by simp
  from resolve_log_ok [OF assms rp dl _ _ this] h
  show "\<exists>r. resolve c = Inr r \<and> nbins r = nb \<and> bin_size r = bs
         \<and> min_sep r = mx * exp (- real_of_int nb * bs) \<and> max_sep r = mx
         \<and> log_layout_spec r"
    by auto
qed

theorem log_resolution_witness:
  "\<exists>r. resolve scenario_log = Inr r \<and> nbins r = 5 \<and> bin_size r = ln 10 / 5
      \<and> min_sep r = 1 \<and> max_sep r = 10
      \<and> rnom (geom r) ! 0 = exp (ln 1 + 0.5 * (ln 10 / 5))
      \<and> left_edges (geom r) ! 0 = 1 \<and> length (rnom (geom r)) = 5"
proof -
  have a: "cfg_bin_type scenario_log = Log" "0 < cfg_sep_units scenario_log"
    by (simp_all add: scenario_log_def)
  have "\<exists>r. resolve scenario_log = Inr r \<and> nbins r = 5
         \<and> bin_size r = ln (10 / 1) / real_of_int 5
         \<and> min_sep r = 1 \<and> max_sep r = 10 \<and> log_layout_spec r"
    using log_resolution [OF a, THEN conjunct2, THEN conjunct1, rule_format, of 5 1 10]
    by (simp add: scenario_log_def)
  then obtain r where r: "resolve scenario_log = Inr r" "nbins r = 5" "bin_size r = ln 10 / 5"
     "min_sep r = 1" "max_sep r = 10" "log_layout_spec r" by auto
  from r(6) have "rnom (geom r) ! 0 = exp (ln 1 + 0.5 * (ln 10 / 5))"
     "left_edges (geom r) ! 0 = 1" "length (rnom (geom r)) = 5"
    by (simp_all add: log_layout_spec_def center_log_def r(2-5) upt_conv_Cons)
  with r show ?thesis by blast
qed

lemma read_params_fails_iff:
  "is_error (read_params c) \<longleftrightarrow>
     (cfg_bin_type c \<noteq> TwoD \<and> n_given c \<noteq> 3)
   \<or> (cfg_bin_type c = TwoD \<and> n_given_twod c \<noteq> 2)
   \<or> (\<exists>mx. cfg_max_sep c = Some mx \<and> (cfg_min_sep c \<noteq> None \<or> cfg_bin_type c = TwoD)
          \<and> get_min_sep c \<ge> mx)"
  by (cases "cfg_nbins c"; cases "cfg_bin_size c"; cases "cfg_min_sep c"; cases "cfg_max_sep c";
      cases "cfg_bin_type c")
     (simp_all add: read_params_def is_error_def n_given_def n_given_twod_def given_def get_min_sep_def)

lemma read_params_error_kind:
  "read_params c = Inl e \<Longrightarrow> config_error e"
  by (auto simp: read_params_def config_error_def split: option.splits if_splits)

lemma resolve_fails_config:
  assumes "is_error (read_params c)"
  shows "fails_config c"
proof -
  obtain e where e: "read_params c = Inl e" using assms by (auto simp: is_error_def split: sum.splits)
  then have "config_error e" by (rule read_params_error_kind)
  with e show ?thesis
    by (simp add: fails_config_def resolve_def ebind_def math_log_def config_error_def)
qed

text \<open>
  Claim C6, as the code has it. The resolution fails with a configuration error
  (a \<^verbatim>\<open>TypeError\<close> or a \<^verbatim>\<open>ValueError\<close>) when a Log or Linear
  specification supplies a number of the four parameters other than 3, when a TwoD
  specification supplies a number of \<open>nbins\<close>, \<open>bin_size\<close>, \<open>max_sep\<close> other
  than 2, and when \<open>min_sep\<close> and \<open>max_sep\<close> are both supplied with
  \<open>min_sep \<ge> max_sep\<close> (for TwoD an absent \<open>min_sep\<close> counts as 0). These are all the
  failures of the reading of the parameters. A \<open>min_sep\<close> supplied for TwoD is not
  an error and is not counted.
\<close>

theorem config_errors:
  "(cfg_bin_type c \<noteq> TwoD \<and> n_given c \<noteq> 3 \<longrightarrow> fails_config c)
 \<and> (cfg_bin_type c = TwoD \<and> n_given_twod c \<noteq> 2 \<longrightarrow> fails_config c)
 \<and> (\<forall>mn mx. cfg_min_sep c = Some mn \<and> cfg_max_sep c = Some mx \<and> mn \<ge> mx \<longrightarrow> fails_config c)
 \<and> (\<forall>mx. cfg_bin_type c = TwoD \<and> cfg_min_sep c = None \<and> cfg_max_sep c = Some mx \<and> 0 \<ge> mx
        \<longrightarrow> fails_config c)
 \<and> (is_error (read_params c) \<longleftrightarrow>
       (cfg_bin_type c \<noteq> TwoD \<and> n_given c \<noteq> 3)
     \<or> (cfg_bin_type c = TwoD \<and> n_given_twod c \<noteq> 2)
     \<or> (\<exists>mx. cfg_max_sep c = Some mx \<and> (cfg_min_sep c \<noteq> None \<or> cfg_bin_type c = TwoD)
            \<and> get_min_sep c \<ge> mx))"
proof (intro conjI allI impI)
  show "is_error (read_params c) \<longleftrightarrow>
       (cfg_bin_type c \<noteq> TwoD \<and> n_given c \<noteq> 3)
     \<or> (cfg_bin_type c = TwoD \<and> n_given_twod c \<noteq> 2)
     \<or> (\<exists>mx. cfg_max_sep c = Some mx \<and> (cfg_min_sep c \<noteq> None \<or> cfg_bin_type c = TwoD)
            \<and> get_min_sep c \<ge> mx)"
    by (rule read_params_fails_iff)
qed (rule resolve_fails_config, simp add: read_params_fails_iff get_min_sep_def)+

theorem config_errors_witness:
  "fails_config all_four_log \<and> fails_config twod_only_max_sep
   \<and> fails_config log_min_above_max \<and> fails_config twod_negative_max_sep"
proof -
  have "fails_config all_four_log"
    using config_errors [of all_four_log]
    by (simp add: all_four_log_def n_given_def given_def)
  moreover have "fails_config twod_only_max_sep"
    using config_errors [of twod_only_max_sep]
    by (simp add: twod_only_max_sep_def n_given_twod_def given_def)
  moreover have "fails_config log_min_above_max"
    using config_errors [of log_min_above_max]
    by (simp add: log_min_above_max_def)
  moreover have "fails_config twod_negative_max_sep"
    using config_errors [of twod_negative_max_sep]
    by (simp add: twod_negative_max_sep_def)
  ultimately show ?thesis by simp
qed

text \<open>
  A TwoD specification that supplies \<open>min_sep\<close>, \<open>max_sep\<close> and \<open>bin_size\<close>
  (three of the four parameters) resolves without error.
\<close>

theorem twod_min_sep_accepted:
  "cfg_bin_type twod_with_min_sep = TwoD \<and> cfg_min_sep twod_with_min_sep = Some 1
   \<and> n_given twod_with_min_sep = 3
   \<and> (\<exists>r. resolve twod_with_min_sep = Inr r \<and> nbins r = 4 \<and> bin_size r = 1
          \<and> min_sep r = 1 \<and> max_sep r = 2 \<and> priv_nbins r = 16)
   \<and> \<not> fails_config twod_with_min_sep"
  by (simp add: twod_with_min_sep_def n_given_def given_def fails_config_def resolve_def
        read_params_def get_min_sep_def resolve_branch_def ebind_def math_log_def py_div_def
        arrays_twod_def linspace_def finish_def Let_def)

lemma arrays_log_bounds:
  "arrays_log p = Inr br \<Longrightarrow>
     min_log_bin_size br = br_bin_size br \<and> max_log_bin_size br = br_bin_size br
     \<and> max_good_slop br = 0.1 / br_bin_size br"
  by (cases p) (auto simp: arrays_log_def ebind_Inr py_div_Inr Let_def)

lemma arrays_linear_bounds:
  "arrays_linear p = Inr br \<Longrightarrow>
     min_log_bin_size br = br_bin_size br / br_max_sep br
     \<and> max_log_bin_size br = br_bin_size br / (br_min_sep br + br_bin_size br / 2)
     \<and> max_good_slop br = 0.1 / (br_bin_size br / (br_min_sep br + br_bin_size br / 2))"
  by (cases p) (auto simp: arrays_linear_def ebind_Inr py_div_Inr Let_def)

lemma arrays_twod_bounds:
  "arrays_twod p = Inr br \<Longrightarrow>
     min_log_bin_size br = br_bin_size br / br_max_sep br
     \<and> max_log_bin_size br = br_bin_size br / (br_min_sep br + br_bin_size br / 2)
     \<and> max_good_slop br = 0.1 / (br_bin_size br / (br_min_sep br + br_bin_size br / 2))"
  by (cases p) (auto simp: arrays_twod_def ebind_Inr py_div_Inr Let_def)

lemma resolve_branch_bounds:
  assumes "resolve_branch t p = Inr br"
  shows "min_log_bin_size br = (case t of Log \<Rightarrow> br_bin_size br | _ \<Rightarrow> br_bin_size br / br_max_sep br)"
    "max_good_slop br = 0.1 / (case t of Log \<Rightarrow> br_bin_size br
             | _ \<Rightarrow> br_bin_size br / (br_min_sep br + br_bin_size br / 2))"
  using assms arrays_log_bounds arrays_linear_bounds arrays_twod_bounds
  by (cases t; auto simp: resolve_branch_def ebind_Inr)+

lemma resolve_Inr:
  "resolve c = Inr r \<longleftrightarrow>
     0 < cfg_sep_units c \<and>
     (\<exists>p br. read_params c = Inr p \<and> resolve_branch (cfg_bin_type c) p = Inr br \<and> r = finish c br)"
  by (auto simp: resolve_def ebind_Inr math_log_def)

lemma finish_slop:
  "bin_slop (finish c br) =
     (case cfg_bin_slop c of None \<Rightarrow> min (max_good_slop br) 1
      | Some s \<Rightarrow> if s < 0 then min (max_good_slop br) 1 else s)"
  "slop_warning (finish c br) \<longleftrightarrow> bin_slop (finish c br) > max_good_slop br + 0.0001"
  "b (finish c br) =
     (if cfg_bin_type c = Log then min_log_bin_size br else min_log_bin_size br * cfg_sep_units c)
       * bin_slop (finish c br)"
  by (cases "cfg_bin_type c"; simp add: finish_def Let_def split: option.splits)+

lemma finish_params:
  "nbins (finish c br) = br_nbins br" "bin_size (finish c br) = br_bin_size br"
  "min_sep (finish c br) = br_min_sep br" "max_sep (finish c br) = br_max_sep br"
  by (simp_all add: finish_def Let_def)

text \<open>
  Claim C5, as the code has it. Whenever the resolution succeeds: without a supplied
  \<open>bin_slop\<close> the resolved \<open>bin_slop\<close> is \<open>min(0.1/max_log_bin_size, 1)\<close>, where
  \<open>max_log_bin_size\<close> is \<open>bin_size\<close> for Log and \<open>bin_size/(min_sep + bin_size/2)\<close>
  for Linear and TwoD; the tolerance is \<open>b = min_log_bin_size * bin_slop\<close>, where
  \<open>min_log_bin_size\<close> is \<open>bin_size\<close> for Log and \<open>bin_size/max_sep\<close> times the
  separation unit factor for Linear and TwoD; a supplied non-negative \<open>bin_slop\<close> is
  kept as given, the warning is raised exactly when it exceeds
  \<open>0.1/max_log_bin_size + 0.0001\<close>, and no value of \<open>bin_slop\<close> makes the resolution
  fail.
\<close>

theorem slop_and_tolerance:
  assumes "resolve c = Inr r"
  shows "(cfg_bin_slop c = None \<longrightarrow>
            bin_slop r = min (0.1 / max_log_bin_size_of (cfg_bin_type c) r) 1)
    \<and> b r = min_log_bin_size_of c r * bin_slop r
    \<and> (\<forall>s. cfg_bin_slop c = Some s \<and> 0 \<le> s \<longrightarrow>
          bin_slop r = s \<and>
          (slop_warning r \<longleftrightarrow> s > 0.1 / max_log_bin_size_of (cfg_bin_type c) r + 0.0001))
    \<and> (\<forall>s. \<not> is_error (resolve (c\<lparr>cfg_bin_slop := s\<rparr>)))"
proof -
  from assms obtain p br where u: "0 < cfg_sep_units c" and p: "read_params c = Inr p"
    and br: "resolve_branch (cfg_bin_type c) p = Inr br" and r: "r = finish c br"
    by (auto simp: resolve_Inr)
  note bd = resolve_branch_bounds [OF br]
  have mgs: "max_good_slop br = 0.1 / max_log_bin_size_of (cfg_bin_type c) r"
    by (simp add: bd(2) max_log_bin_size_of_def r finish_params split: bin_type.splits)
  have 1: "cfg_bin_slop c = None \<longrightarrow>
            bin_slop r = min (0.1 / max_log_bin_size_of (cfg_bin_type c) r) 1"
    by (simp add: r finish_slop(1) mgs [unfolded r])
  have 2: "b r = min_log_bin_size_of c r * bin_slop r"
    by (cases "cfg_bin_type c") (simp_all add: r finish_slop(3) finish_params bd(1) min_log_bin_size_of_def)
  have 3: "\<forall>s. cfg_bin_slop c = Some s \<and> 0 \<le> s \<longrightarrow>
          bin_slop r = s \<and>
          (slop_warning r \<longleftrightarrow> s > 0.1 / max_log_bin_size_of (cfg_bin_type c) r + 0.0001)"
    by (auto simp: r finish_slop(1,2) mgs [unfolded r])
  have 4: "\<forall>s. \<not> is_error (resolve (c\<lparr>cfg_bin_slop := s\<rparr>))"
  proof
    fix s
    have "read_params (c\<lparr>cfg_bin_slop := s\<rparr>) = read_params c"
      by (simp add: read_params_def get_min_sep_def cong: option.case_cong if_cong)
    then have "resolve (c\<lparr>cfg_bin_slop := s\<rparr>) = Inr (finish (c\<lparr>cfg_bin_slop := s\<rparr>) br)"
      using u p br by (simp add: resolve_def ebind_def math_log_def)
    then show "\<not> is_error (resolve (c\<lparr>cfg_bin_slop := s\<rparr>))" by (simp add: is_error_def)
  qed
  from 1 2 3 4 show ?thesis by blast
qed

lemma resolve_linear_degrees: "resolve linear_degrees = Inr linear_degrees_resolved"
  by (simp add: linear_degrees_def linear_degrees_resolved_def resolve_def read_params_def
        get_min_sep_def resolve_branch_def ebind_def math_log_def py_div_def
        arrays_linear_def linspace_def finish_def Let_def pi_gt_zero not_le)

text \<open>
  For a linear binning in degrees the tolerance carries the unit factor, so it is not
  \<open>bin_size/max_sep * bin_slop\<close>.
\<close>

theorem tolerance_without_units_counterexample:
  "\<exists>r. resolve linear_degrees = Inr r \<and> cfg_bin_slop linear_degrees = None
      \<and> bin_slop r = 3 / 20
      \<and> b r = (1 / 2) * (pi / 180) * bin_slop r
      \<and> b r \<noteq> claimed_min_log_bin_size (cfg_bin_type linear_degrees) r * bin_slop r"
proof -
  have "pi < 4" by (rule pi_less_4)
  then have "pi / 360 * (3 / 20) \<noteq> (3::real) / 40" by simp
  then show ?thesis
    by (simp add: resolve_linear_degrees)
       (simp add: linear_degrees_resolved_def linear_degrees_def claimed_min_log_bin_size_def)
qed

theorem slop_and_tolerance_witness:
  "bin_slop linear_degrees_resolved = min (0.1 / (1 / (1 + 1 / 2))) 1
   \<and> b linear_degrees_resolved = 1 / 2 * (pi / 180) * bin_slop linear_degrees_resolved
   \<and> \<not> is_error (resolve (linear_degrees\<lparr>cfg_bin_slop := Some 1\<rparr>))"
  using slop_and_tolerance [OF resolve_linear_degrees]
  by (simp add: linear_degrees_def linear_degrees_resolved_def max_log_bin_size_of_def
        min_log_bin_size_of_def)

section \<open>Properties of the covariance estimators\<close>

lemma is_error_ebind: "is_error m \<Longrightarrow> is_error (ebind m f)"
  by (cases m) (simp_all add: is_error_def ebind_def)

lemma is_error_Inl [simp]: "is_error (Inl e)" by (simp add: is_error_def)

lemma is_error_Inr [simp]: "\<not> is_error (Inr x)" by (simp add: is_error_def)

lemma ebind_Inl [simp]: "ebind (Inl e) f = Inl e" by (simp add: ebind_def)

lemma ebind_Inr_simp [simp]: "ebind (Inr x) f = f x" by (simp add: ebind_def)

lemma is_error_emap: "x \<in> set xs \<Longrightarrow> is_error (f x) \<Longrightarrow> is_error (emap f xs)"
proof (induction xs)
  case Nil then show ?case by simp
next
  case (Cons y ys)
  show ?case
  proof (cases "f y")
    case (Inl e) then show ?thesis by simp
  next
    case (Inr z)
    show ?thesis
    proof (cases "x = y")
      case True with Cons.prems Inr show ?thesis by simp
    next
      case False
      with Cons have "is_error (emap f ys)" by simp
      then show ?thesis using Inr by (cases "emap f ys") simp_all
    qed
  qed
qed

lemma patch_method_error:
  assumes "method \<in> patch_methods" "is_error (get_patch_nums corrs)"
  shows "is_error (estimate_multi_cov rng corrs method)"
proof -
  from assms(2) obtain e where e: "get_patch_nums corrs = Inl e"
    by (cases "get_patch_nums corrs") simp_all
  from assms(1) show ?thesis
    by (auto simp: patch_methods_def estimate_multi_cov_def cov_jackknife_def cov_sample_def
          cov_bootstrap_def cov_bootstrap2_def bootstrap_samples_def bootstrap2_samples_def e)
qed

lemma patch_method_error_eq:
  assumes "method \<in> patch_methods" "get_patch_nums corrs = Inl e"
  shows "estimate_multi_cov rng corrs method = Inl e"
  using assms
  by (auto simp: patch_methods_def estimate_multi_cov_def cov_jackknife_def cov_sample_def
          cov_bootstrap_def cov_bootstrap2_def bootstrap_samples_def bootstrap2_samples_def)

lemma count_distinct_Nil [simp]: "count_distinct [] = 0" by (simp add: count_distinct_def)

lemma count_distinct_pos: "xs \<noteq> [] \<Longrightarrow> 0 < count_distinct xs"
  by (cases xs) (auto simp: count_distinct_def)

lemma check_patches_empty: "0 < npatch \<Longrightarrow> results c = [] \<Longrightarrow> is_error (check_patches npatch c)"
  by (simp add: check_patches_def keys_def Let_def)

lemma get_patch_nums_first_empty:
  "results c0 = [] \<Longrightarrow> get_patch_nums (c0 # rest)
      = Inl (ValueError ''Jackknife covariance requires processing using patches.'')"
  by (simp add: get_patch_nums_def keys_def)

lemma get_patch_nums_rest:
  assumes "c \<in> set rest"
    and "0 < max (npatch1_of c0) (npatch2_of c0)
         \<Longrightarrow> is_error (check_patches (max (npatch1_of c0) (npatch2_of c0)) c)"
  shows "is_error (get_patch_nums (c0 # rest))"
proof (cases "keys c0 = []")
  case True then show ?thesis by (simp add: get_patch_nums_def)
next
  case False
  then have "0 < npatch1_of c0"
    by (simp add: npatch1_of_def count_distinct_pos)
  then have "0 < max (npatch1_of c0) (npatch2_of c0)"
    by (simp add: less_max_iff_disj)
  from assms(2) [OF this] assms(1)
  have "is_error (emap (check_patches (max (npatch1_of c0) (npatch2_of c0))) rest)"
    by (rule is_error_emap [rotated])
  then show ?thesis
    by (auto simp: get_patch_nums_def Let_def npatch1_of_def npatch2_of_def is_error_ebind)
qed

lemma get_patch_nums_empty:
  assumes "c \<in> set corrs" "results c = []"
  shows "is_error (get_patch_nums corrs)"
proof (cases corrs)
  case Nil with assms show ?thesis by simp
next
  case (Cons c0 rest)
  show ?thesis
  proof (cases "c = c0")
    case True with assms Cons show ?thesis by (simp add: get_patch_nums_first_empty)
  next
    case False
    with assms Cons have "c \<in> set rest" by simp
    then show ?thesis unfolding Cons
      by (rule get_patch_nums_rest) (simp add: check_patches_empty assms)
  qed
qed

lemma get_patch_nums_mismatch:
  assumes "c \<in> set corrs"
    and "(npatch1_of c \<noteq> 1 \<and> npatch1_of c \<noteq> max (npatch1_of (hd corrs)) (npatch2_of (hd corrs)))
       \<or> (npatch2_of c \<noteq> 1 \<and> npatch2_of c \<noteq> max (npatch1_of (hd corrs)) (npatch2_of (hd corrs)))"
  shows "is_error (get_patch_nums corrs)"
proof (cases corrs)
  case Nil with assms show ?thesis by simp
next
  case (Cons c0 rest)
  show ?thesis
  proof (cases "c = c0")
    case True
    show ?thesis
    proof (cases "keys c0 = []")
      case True then show ?thesis unfolding Cons by (simp add: get_patch_nums_def)
    next
      case False
      then have "0 < npatch1_of c0" "0 < npatch2_of c0"
        by (simp_all add: npatch1_of_def npatch2_of_def count_distinct_pos)
      with assms(2) Cons \<open>c = c0\<close>
      have "npatch1_of c0 \<noteq> npatch2_of c0 \<and> npatch1_of c0 \<noteq> 1 \<and> npatch2_of c0 \<noteq> 1"
        by (auto simp: max_def split: if_splits)
      then show ?thesis unfolding Cons
        by (simp add: get_patch_nums_def Let_def npatch1_of_def npatch2_of_def)
    qed
  next
    case False
    with assms Cons have "c \<in> set rest" by simp
    then show ?thesis unfolding Cons
      using assms(2) Cons
      by (intro get_patch_nums_rest)
         (auto simp: check_patches_def Let_def npatch1_of_def npatch2_of_def)
  qed
qed

text \<open>
  Claim C8. For each of the methods jackknife, sample, bootstrap and bootstrap2, the
  estimation fails with an error when no patch-wise results exist: with the
  \<^verbatim>\<open>ValueError\<close> "Jackknife covariance requires processing using patches." when the
  store of the first correlation object is empty, and with some error when the list is
  empty or any store is empty. It also fails when some store has differing numbers of
  patches on its two axes, neither of them 1, and when some store has a number of patches
  on an axis that is neither 1 nor the number of patches of the first store. The function
  is evaluated once; there is no retry in it.
\<close>

theorem patches_required:
  assumes "method \<in> patch_methods"
  shows "(\<forall>c0 rest. corrs = c0 # rest \<and> results c0 = [] \<longrightarrow>
            estimate_multi_cov rng corrs method
              = Inl (ValueError ''Jackknife covariance requires processing using patches.''))
    \<and> (corrs = [] \<longrightarrow> is_error (estimate_multi_cov rng corrs method))
    \<and> ((\<exists>c \<in> set corrs. results c = []) \<longrightarrow> is_error (estimate_multi_cov rng corrs method))
    \<and> ((\<exists>c \<in> set corrs. npatch1_of c \<noteq> npatch2_of c \<and> npatch1_of c \<noteq> 1 \<and> npatch2_of c \<noteq> 1)
          \<longrightarrow> is_error (estimate_multi_cov rng corrs method))
    \<and> ((\<exists>c \<in> set corrs.
           (npatch1_of c \<noteq> 1 \<and> npatch1_of c \<noteq> max (npatch1_of (hd corrs)) (npatch2_of (hd corrs)))
         \<or> (npatch2_of c \<noteq> 1 \<and> npatch2_of c \<noteq> max (npatch1_of (hd corrs)) (npatch2_of (hd corrs))))
          \<longrightarrow> is_error (estimate_multi_cov rng corrs method))"
proof (intro conjI allI impI)
  fix c0 rest assume "corrs = c0 # rest \<and> results c0 = []"
  then show "estimate_multi_cov rng corrs method
              = Inl (ValueError ''Jackknife covariance requires processing using patches.'')"
    using patch_method_error_eq [OF assms] get_patch_nums_first_empty by blast
next
  assume "corrs = []"
  then show "is_error (estimate_multi_cov rng corrs method)"
    by (intro patch_method_error [OF assms]) (simp add: get_patch_nums_def)
next
  assume "\<exists>c \<in> set corrs. results c = []"
  then show "is_error (estimate_multi_cov rng corrs method)"
    using patch_method_error [OF assms] get_patch_nums_empty by blast
next
  assume "\<exists>c \<in> set corrs. npatch1_of c \<noteq> npatch2_of c \<and> npatch1_of c \<noteq> 1 \<and> npatch2_of c \<noteq> 1"
  then obtain c where c: "c \<in> set corrs" "npatch1_of c \<noteq> npatch2_of c"
    "npatch1_of c \<noteq> 1" "npatch2_of c \<noteq> 1" by blast
  then have "(npatch1_of c \<noteq> 1 \<and> npatch1_of c \<noteq> max (npatch1_of (hd corrs)) (npatch2_of (hd corrs)))
       \<or> (npatch2_of c \<noteq> 1 \<and> npatch2_of c \<noteq> max (npatch1_of (hd corrs)) (npatch2_of (hd corrs)))"
    by auto
  with c(1) show "is_error (estimate_multi_cov rng corrs method)"
    using patch_method_error [OF assms] get_patch_nums_mismatch by blast
next
  assume "\<exists>c \<in> set corrs.
           (npatch1_of c \<noteq> 1 \<and> npatch1_of c \<noteq> max (npatch1_of (hd corrs)) (npatch2_of (hd corrs)))
         \<or> (npatch2_of c \<noteq> 1 \<and> npatch2_of c \<noteq> max (npatch1_of (hd corrs)) (npatch2_of (hd corrs)))"
  then show "is_error (estimate_multi_cov rng corrs method)"
    using patch_method_error [OF assms] get_patch_nums_mismatch by blast
qed

text \<open>
  Claim C10. For a method string other than shot, jackknife, sample, bootstrap and
  bootstrap2, \<^verbatim>\<open>estimate_multi_cov\<close> raises the \<^verbatim>\<open>ValueError\<close> that names
  the method; the outcome is the same for every list of correlation objects and every
  random source, so no result store is read, and none is modified.
\<close>

theorem invalid_method:
  assumes "method \<notin> {''shot'', ''jackknife'', ''sample'', ''bootstrap'', ''bootstrap2''}"
  shows "estimate_multi_cov rng corrs method = Inl (ValueError (''Invalid method: '' @ method))
       \<and> estimate_multi_cov rng corrs method = estimate_multi_cov rng' corrs' method"
  using assms by (simp add: estimate_multi_cov_def)

lemma emap_Inr_map:
  "(\<And>x. x \<in> set xs \<Longrightarrow> f x = Inr (g x)) \<Longrightarrow> emap f xs = Inr (map g xs)"
  by (induction xs) simp_all

lemma shot_concat:
  assumes "\<forall>c \<in> set corrs. length (weight c) = getStatLen c"
  shows "concat (map (\<lambda>c. map (\<lambda>w. if w \<noteq> 0 then var_num c / w else 0) (weight c)) corrs)
       = map2 (\<lambda>v w. if w \<noteq> 0 then v / w else 0) (flat_var_num corrs) (flat_weight corrs)"
  using assms
proof (induction corrs)
  case Nil then show ?case by (simp add: flat_var_num_def flat_weight_def)
next
  case (Cons c cs)
  have "map (\<lambda>w. if w \<noteq> 0 then var_num c / w else 0) (weight c)
      = map2 (\<lambda>v w. if w \<noteq> 0 then v / w else 0) (replicate (length (weight c)) (var_num c)) (weight c)"
    by (simp add: map2_map_map [symmetric] zip_replicate1 map_zip_map del: map2_map_map)
  with Cons show ?case
    by (simp add: flat_var_num_def flat_weight_def)
qed

lemma flat_lengths:
  assumes "\<forall>c \<in> set corrs. length (weight c) = getStatLen c"
  shows "length (flat_weight corrs) = total_len corrs" "length (flat_var_num corrs) = total_len corrs"
  using assms
  by (induction corrs) (simp_all add: flat_weight_def flat_var_num_def total_len_def)

text \<open>
  Claim C4. For a non-empty list of correlation objects whose weight arrays have the
  length of their statistic, the shot-noise covariance is a square matrix over the
  concatenated data vector with every off-diagonal entry 0, and with diagonal entry
  \<open>k\<close> equal to the shot variance numerator divided by \<open>weight[k]\<close> where
  \<open>weight[k]\<close> is nonzero, and 0 where it is zero.
\<close>

theorem shot_diagonal:
  assumes "corrs \<noteq> []" "\<forall>c \<in> set corrs. length (weight c) = getStatLen c"
  shows "\<exists>C. cov_shot corrs = Inr C \<and> length C = total_len corrs \<and>
     (\<forall>i < total_len corrs. length (C ! i) = total_len corrs \<and>
        (\<forall>j < total_len corrs. i \<noteq> j \<longrightarrow> C ! i ! j = 0) \<and>
        C ! i ! i = (if flat_weight corrs ! i \<noteq> 0
                     then flat_var_num corrs ! i / flat_weight corrs ! i else 0))"
proof -
  let ?sv = "\<lambda>c. map (\<lambda>w. if w \<noteq> 0 then var_num c / w else 0) (weight c)"
  let ?d = "map2 (\<lambda>v w. if w \<noteq> 0 then v / w else 0) (flat_var_num corrs) (flat_weight corrs)"
  have "emap shot_vector corrs = Inr (map ?sv corrs)"
    using assms(2) by (intro emap_Inr_map) (simp add: shot_vector_def)
  then have C: "cov_shot corrs = Inr (np_diag ?d)"
    using assms(1) by (simp add: cov_shot_def shot_concat [OF assms(2)])
  have len: "length ?d = total_len corrs"
    by (simp add: flat_lengths [OF assms(2)])
  have "\<forall>i < total_len corrs. length (np_diag ?d ! i) = total_len corrs \<and>
        (\<forall>j < total_len corrs. i \<noteq> j \<longrightarrow> np_diag ?d ! i ! j = 0) \<and>
        np_diag ?d ! i ! i = (if flat_weight corrs ! i \<noteq> 0
                     then flat_var_num corrs ! i / flat_weight corrs ! i else 0)"
    using len by (simp add: np_diag_def flat_lengths [OF assms(2)])
  moreover have "length (np_diag ?d) = total_len corrs"
    using len by (simp add: np_diag_def)
  ultimately show ?thesis using C by blast
qed

lemma max_num_bootstrap_Max:
  "corrs \<noteq> [] \<Longrightarrow> max_num_bootstrap corrs = Max (num_bootstrap ` set corrs)"
  by (cases corrs) (simp_all add: max_num_bootstrap_def Max.set_eq_fold [symmetric])

lemma emap_Inr_all2:
  "emap f xs = Inr ys \<Longrightarrow> list_all2 (\<lambda>x y. f x = Inr y) xs ys"
  by (induction xs arbitrary: ys) (auto simp: ebind_Inr)

lemma hstack_length:
  "hstack ms = Inr m \<Longrightarrow> ms \<noteq> [] \<and> length m = length (hd ms)"
  by (cases ms) (auto simp: hstack_def split: if_splits)

lemma make_cov_design_matrix_length:
  "make_cov_design_matrix c ps = Inr (n, d) \<Longrightarrow> length n = length ps \<and> length d = length ps"
  by (auto simp: make_cov_design_matrix_def ebind_Inr dest!: emap_Inr_all2 list_all2_lengthD)

lemma list_all2_right_ex:
  "list_all2 P xs ys \<Longrightarrow> y \<in> set ys \<Longrightarrow> \<exists>x \<in> set xs. P x y"
  by (induction rule: list_all2_induct) auto

lemma bootstrap_samples_length:
  assumes "bootstrap_samples rng corrs = Inr v"
  shows "0 \<le> max_num_bootstrap corrs \<and> length v = nat (max_num_bootstrap corrs)"
proof -
  have tail: "0 \<le> max_num_bootstrap corrs \<and> length v = nat (max_num_bootstrap corrs)"
    if "(if max_num_bootstrap corrs < 0
         then Inl (ValueError ''negative dimensions are not allowed'')
         else Inr (map f [0..<nat (max_num_bootstrap corrs)])) = Inr v"
    for f :: "nat \<Rightarrow> npvec"
    using that by (cases "max_num_bootstrap corrs < 0") auto
  from assms show ?thesis
    unfolding bootstrap_samples_def ebind_Inr case_prod_beta Let_def
    by (elim exE conjE) (erule tail)
qed

lemma bootstrap2_design_lengths:
  assumes "bootstrap2_design rng npatch nboot corrs triples = Inr nd" "x \<in> set nd"
  shows "length (fst x) = nboot \<and> length (snd x) = nboot"
proof -
  note emap_Inr_all2 [OF assms(1) [unfolded bootstrap2_design_def]]
  from list_all2_right_ex [OF this assms(2)] obtain e where
    "(case e of (ci, c, n1, n2, pairs) \<Rightarrow>
        ebind (emap (\<lambda>k. bootstrap2_pairs n1 n2 pairs (randint rng (ci * nboot + k) npatch))
                 [0..<nboot])
          (make_cov_design_matrix c)) = Inr x"
    by blast
  then obtain ci c n1 n2 pairs where
    "ebind (emap (\<lambda>k. bootstrap2_pairs n1 n2 pairs (randint rng (ci * nboot + k) npatch))
                 [0..<nboot])
          (make_cov_design_matrix c) = Inr x"
    by (cases e) auto
  then obtain ps where ps: "emap (\<lambda>k. bootstrap2_pairs n1 n2 pairs (randint rng (ci * nboot + k) npatch))
                 [0..<nboot] = Inr ps" "make_cov_design_matrix c ps = Inr x"
    unfolding ebind_Inr by blast
  from emap_Inr_all2 [OF ps(1)] have "length ps = nboot"
    by (auto dest: list_all2_lengthD)
  with ps(2) show ?thesis
    using make_cov_design_matrix_length [of c ps "fst x" "snd x"] by simp
qed

lemma bootstrap2_samples_length:
  assumes "bootstrap2_samples rng corrs = Inr v"
  shows "length v = nat (max_num_bootstrap corrs)"
proof -
  from assms obtain pn nd vnum vdenom where
    nd: "bootstrap2_design rng (fst pn) (nat (max_num_bootstrap corrs)) corrs (snd pn) = Inr nd"
    and vn: "hstack (map fst nd) = Inr vnum" and vd: "hstack (map snd nd) = Inr vdenom"
    and v: "Inr (mat_div vnum vdenom) = (Inr v :: error + npmat)"
    unfolding bootstrap2_samples_def ebind_Inr case_prod_beta by blast
  from hstack_length [OF vn] have ne: "nd \<noteq> []" and l1: "length vnum = length (fst (hd nd))"
    by (simp_all add: hd_map)
  from hstack_length [OF vd] have l2: "length vdenom = length (snd (hd nd))"
    by (simp add: hd_map)
  from ne have "hd nd \<in> set nd" by simp
  from bootstrap2_design_lengths [OF nd this] l1 l2 v
  show ?thesis by (auto simp: mat_div_def)
qed

lemma count_list_concat:
  "count_list (concat xss) x = sum_list (map (\<lambda>xs. count_list xs x) xss)"
  by (induction xss) simp_all

lemma count_list_diag: "count_list (map (\<lambda>i. (i, i)) xs) (u, v) = (if u = v then count_list xs u else 0)"
  by (induction xs) auto

lemma count_list_row:
  "count_list (concat (map (\<lambda>j. if P j then [(i, j)] else []) xs)) (u, v)
     = (if i = u \<and> P v then count_list xs v else 0)"
  by (induction xs) auto

lemma sum_list_indicator:
  "sum_list (map (\<lambda>i. if i = u then (k::nat) else 0) xs) = count_list xs u * k"
  by (induction xs) auto

lemma count_list_cross:
  "count_list [(i, j). i \<leftarrow> indx, j \<leftarrow> indx, i \<noteq> j \<and> (i, j) \<in> S] (u, v)
     = (if u \<noteq> v \<and> (u, v) \<in> S then count_list indx u * count_list indx v else 0)"
proof -
  have "count_list [(i, j). i \<leftarrow> indx, j \<leftarrow> indx, i \<noteq> j \<and> (i, j) \<in> S] (u, v)
      = sum_list (map (\<lambda>i. count_list
            (concat (map (\<lambda>j. if i \<noteq> j \<and> (i, j) \<in> S then [(i, j)] else []) indx)) (u, v)) indx)"
    by (subst count_list_concat) (simp add: o_def)
  also have "\<dots> = sum_list (map (\<lambda>i. if i = u
        then (if u \<noteq> v \<and> (u, v) \<in> S then count_list indx v else 0) else 0) indx)"
    by (intro arg_cong [where f = sum_list] map_cong refl) (simp add: count_list_row)
  finally show ?thesis by (simp add: sum_list_indicator)
qed

lemma upt_2: "[0..<2] = [0, 1]" by (simp add: upt_rec)

lemma upt_3: "[0..<3] = [0, 1, 2]" by (simp add: upt_rec)

theorem patches_required_witness:
  "estimate_multi_cov rng0 [empty_store] ''jackknife''
      = Inl (ValueError ''Jackknife covariance requires processing using patches.'')
   \<and> is_error (estimate_multi_cov rng0 [] ''sample'')
   \<and> is_error (estimate_multi_cov rng0 [two_patch_store, empty_store] ''bootstrap'')
   \<and> is_error (estimate_multi_cov rng0 [mismatched_store] ''bootstrap2'')
   \<and> is_error (estimate_multi_cov rng0 [two_patch_store, three_patch_store] ''jackknife'')"
proof -
  have 1: "estimate_multi_cov rng0 [empty_store] ''jackknife''
      = Inl (ValueError ''Jackknife covariance requires processing using patches.'')"
    using patches_required [of "''jackknife''" "[empty_store]" rng0]
    by (simp add: patch_methods_def empty_store_def)
  have 2: "is_error (estimate_multi_cov rng0 [] ''sample'')"
    using patches_required [of "''sample''" "[]" rng0]
    by (simp add: patch_methods_def)
  have 3: "is_error (estimate_multi_cov rng0 [two_patch_store, empty_store] ''bootstrap'')"
    using patches_required [of "''bootstrap''" "[two_patch_store, empty_store]" rng0]
    by (simp add: patch_methods_def empty_store_def)
  have 4: "is_error (estimate_multi_cov rng0 [mismatched_store] ''bootstrap2'')"
    using patches_required [of "''bootstrap2''" "[mismatched_store]" rng0]
    by (simp add: patch_methods_def mismatched_store_def npatch1_of_def npatch2_of_def keys_def
          count_distinct_def)
  have 5: "is_error (estimate_multi_cov rng0 [two_patch_store, three_patch_store] ''jackknife'')"
    using patches_required [of "''jackknife''" "[two_patch_store, three_patch_store]" rng0]
    by (simp add: patch_methods_def two_patch_store_def three_patch_store_def npatch1_of_def
          npatch2_of_def keys_def count_distinct_def)
  from 1 2 3 4 5 show ?thesis by blast
qed

theorem invalid_method_witness:
  "estimate_multi_cov rng0 [two_patch_store] ''bootstrap3''
     = Inl (ValueError (''Invalid method: '' @ ''bootstrap3''))
   \<and> estimate_multi_cov rng0 [two_patch_store] ''bootstrap3''
     = estimate_multi_cov (\<lambda>k j. 0) [] ''bootstrap3''"
  by (rule invalid_method) simp

theorem shot_diagonal_witness:
  "\<exists>C. cov_shot [two_patch_store, three_patch_store] = Inr C \<and> length C = 2
     \<and> C ! 0 ! 1 = 0 \<and> C ! 1 ! 0 = 0 \<and> C ! 0 ! 0 = 2 / 4 \<and> C ! 1 ! 1 = 2 / 6"
proof -
  have ne: "[two_patch_store, three_patch_store] \<noteq> []" by simp
  have wf: "\<forall>c \<in> set [two_patch_store, three_patch_store]. length (weight c) = getStatLen c"
    by (simp add: two_patch_store_def three_patch_store_def)
  have t: "total_len [two_patch_store, three_patch_store] = 2"
    by (simp add: total_len_def two_patch_store_def three_patch_store_def)
  have f: "flat_weight [two_patch_store, three_patch_store] = [4, 6]"
    "flat_var_num [two_patch_store, three_patch_store] = [2, 2]"
    by (simp_all add: flat_weight_def flat_var_num_def two_patch_store_def three_patch_store_def)
  from shot_diagonal [OF ne wf] obtain C where
    C: "cov_shot [two_patch_store, three_patch_store] = Inr C" "length C = 2"
      "\<forall>i<2. length (C ! i) = 2 \<and>
        (\<forall>j<2. i \<noteq> j \<longrightarrow> C ! i ! j = 0) \<and>
        C ! i ! i = (if [4, 6 :: real] ! i \<noteq> 0 then [2, 2 :: real] ! i / [4, 6] ! i else 0)"
    unfolding t f by blast
  from C(3) have "C ! 0 ! 1 = 0" "C ! 1 ! 0 = 0" by auto
  moreover from C(3) have "C ! 0 ! 0 = 2 / 4" by fastforce
  moreover from C(3) have "C ! 1 ! 1 = 2 / 6" by fastforce
  ultimately show ?thesis using C(1,2) by blast
qed

text \<open>
  With three patches and the draw \<open>[0, 0, 1]\<close> the stored cross pair \<open>(0,1)\<close> enters
  the resampling twice, and the numerator of the design matrix counts its statistic
  twice.
\<close>

theorem bootstrap2_repeated_cross_pair:
  "(0, 1) \<in> set (keys three_patch_store) \<and> 0 \<in> set [0, 0, 1 :: nat] \<and> 1 \<in> set [0, 0, 1 :: nat]
   \<and> bootstrap2_pairs 3 3 (keys three_patch_store) [0, 0, 1]
        = Inr [(0, 0), (0, 0), (1, 1), (0, 1), (0, 1)]
   \<and> count_list [(0, 0), (0, 0), (1, 1), (0, 1), (0, 1)] (0 :: nat, 1 :: nat) \<noteq> 1
   \<and> ebind (bootstrap2_pairs 3 3 (keys three_patch_store) [0, 0, 1])
        (\<lambda>ps. make_cov_design_matrix three_patch_store [ps]) = Inr ([[2]], [[5]])"
  by (simp add: keys_def three_patch_store_def bootstrap2_pairs_def make_cov_design_matrix_def
        result_at_def np_sum_rows_def patch_result_def)


section \<open>Arithmetic on finite entries\<close>

lemma np_sum_Fin: "np_sum (map (\<lambda>x. Fin (f x)) xs) = Fin (sum_list (map f xs))"
  by (induction xs) (simp_all add: np_sum_def)

lemma np_mul_commute: "np_mul x y = np_mul y x"
  by (cases x; cases y) (auto simp: mult.commute)

lemma np_sub_Fin: "np_sub (Fin x) (Fin y) = Fin (x - y)"
  by (simp add: np_sub_def)

lemma vec_div_Fin:
  assumes "\<forall>k \<in> set ks. den k \<noteq> 0"
  shows "vec_div (map num ks) (map den ks) = map Fin (map (\<lambda>k. num k / den k) ks)"
  using assms by (induction ks) (simp_all add: vec_div_def)

lemma bootstrap_factor_Fin:
  "nboot \<noteq> 1 \<Longrightarrow> bootstrap_factor nboot = Fin (1 / (real_of_int nboot - 1))"
  by (simp add: bootstrap_factor_def)

lemma col_mean_Fin:
  assumes "\<forall>row \<in> set vr. length row = n" "vr \<noteq> []" "k < n"
  shows "col_mean n (map (map Fin) vr) ! k = Fin (mean_of vr k)"
proof -
  have "map (\<lambda>row. row ! k) (map (map Fin) vr) = map (\<lambda>row. Fin (row ! k)) vr"
    using assms(1,3) by (simp add: o_def)
  then have "np_sum (map (\<lambda>row. row ! k) (map (map Fin) vr))
      = Fin (sum_list (map (\<lambda>row. row ! k) vr))"
    by (simp only: np_sum_Fin)
  moreover have "col_mean n (map (map Fin) vr) ! k
      = np_div (np_sum (map (\<lambda>row. row ! k) (map (map Fin) vr))) (Fin (real (length vr)))"
    using assms(3) by (simp add: col_mean_def del: map_map)
  ultimately show ?thesis
    using assms(2) by (simp add: mean_of_def del: map_map)
qed

lemma center_Fin:
  assumes "\<forall>row \<in> set vr. length row = n"
  shows "center n (map (map Fin) vr)
       = map (\<lambda>row. map (\<lambda>k. Fin (row ! k - mean_of vr k)) [0..<n]) vr"
proof (cases "vr = []")
  case True
  then show ?thesis by (simp add: center_def)
next
  case False
  have "map (\<lambda>k. np_sub (map Fin row ! k) (col_mean n (map (map Fin) vr) ! k)) [0..<n]
      = map (\<lambda>k. Fin (row ! k - mean_of vr k)) [0..<n]" if "row \<in> set vr" for row
    using that assms by (intro map_cong [OF refl]) (simp add: col_mean_Fin [OF assms False] np_sub_Fin)
  then show ?thesis by (simp add: center_def o_def cong: map_cong)
qed

text \<open>
  Where all entries of the matrix of statistics are finite, the code computes the
  covariance of its rows.
\<close>

lemma cov_finite:
  assumes "\<forall>row \<in> set vr. length row = n"
  shows "scale (Fin f) (gram n (center n (map (map Fin) vr)))
       = map (map Fin) (covariance_of f n vr)"
proof -
  have "np_sum (map (\<lambda>row. np_mul (row ! i) (row ! j))
            (map (\<lambda>row. map (\<lambda>k. Fin (row ! k - mean_of vr k)) [0..<n]) vr))
      = Fin (sum_list (map (\<lambda>row. (row ! i - mean_of vr i) * (row ! j - mean_of vr j)) vr))"
    if "i < n" "j < n" for i j
    using that by (simp add: o_def np_sum_Fin)
  then show ?thesis
    by (simp add: center_Fin [OF assms] scale_def gram_def covariance_of_def o_def cong: map_cong)
qed

lemma covariance_of_rows:
  "covariance_of f n (map (\<lambda>i. map (r i) [0..<n]) js)
     = map (\<lambda>k. map (\<lambda>l. f * sum_list (map (\<lambda>i.
              (r i k - sum_list (map (\<lambda>i. r i k) js) / real (length js))
            * (r i l - sum_list (map (\<lambda>i. r i l) js) / real (length js))) js))
          [0..<n]) [0..<n]"
  by (simp add: covariance_of_def mean_of_def o_def cong: map_cong)

lemma scale_gram_symmetric:
  assumes "k < n" "l < n"
  shows "scale f (gram n v) ! k ! l = scale f (gram n v) ! l ! k"
  using assms by (simp add: scale_def gram_def np_mul_commute)

section \<open>Properties of the jackknife covariance\<close>

lemma count_distinct_card: "count_distinct xs = card (set xs)"
  by (simp add: count_distinct_def length_remdups_card_conv)

lemma gpn_single:
  assumes "store_invariant c"
  shows "get_patch_nums [c] = Inr (npatch_of c, [(npatch1_of c, npatch2_of c, keys c)])"
proof -
  from assms have k: "keys c \<noteq> []"
    and s1: "set (map fst (keys c)) = set [0..<count_distinct (map fst (keys c))]"
    and s2: "set (map snd (keys c)) = set [0..<count_distinct (map snd (keys c))]"
    and n: "\<not> (count_distinct (map fst (keys c)) \<noteq> count_distinct (map snd (keys c))
             \<and> count_distinct (map fst (keys c)) \<noteq> 1
             \<and> count_distinct (map snd (keys c)) \<noteq> 1)"
    by (auto simp: store_invariant_def npatch1_of_def npatch2_of_def)
  show ?thesis
    unfolding get_patch_nums_def Let_def npatch_of_def npatch1_of_def npatch2_of_def
    using k n by (simp add: s1 [symmetric] s2 [symmetric] del: set_map set_upt)
qed

lemma result_at_mem:
  assumes "distinct (keys c)" "x \<in> set (results c)"
  shows "result_at c (fst x) = Inr (snd x)"
proof -
  from assms(1) have "distinct (map fst (results c))" by (simp add: keys_def)
  from map_of_eq_Some_iff [OF this, of "fst x" "snd x"] assms(2)
  have "map_of (results c) (fst x) = Some (snd x)" by simp
  then show ?thesis by (simp add: result_at_def)
qed

lemma result_at_key:
  assumes "p \<in> set (keys c)"
  shows "result_at c p = Inr (lookup c p)"
proof -
  from assms have "map_of (results c) p \<noteq> None"
    by (simp add: map_of_eq_None_iff keys_def)
  then obtain r where "map_of (results c) p = Some r" by blast
  then show ?thesis by (simp add: result_at_def lookup_def)
qed

lemma lookup_mem:
  assumes "distinct (keys c)" "x \<in> set (results c)"
  shows "lookup c (fst x) = snd x"
proof -
  from assms(2) have "fst x \<in> set (keys c)" by (simp add: keys_def)
  from result_at_key [OF this] result_at_mem [OF assms] show ?thesis by simp
qed

lemma emap_keys:
  assumes "set ps \<subseteq> set (keys c)"
  shows "emap (result_at c) ps = Inr (map (lookup c) ps)"
proof (rule emap_Inr_map)
  fix p assume "p \<in> set ps"
  with assms have "p \<in> set (keys c)" by blast
  then show "result_at c p = Inr (lookup c p)" by (rule result_at_key)
qed

lemma sum_over_selection:
  assumes d: "distinct (keys c)" and dp: "distinct ps"
    and s: "set ps = {p \<in> set (keys c). S p}"
  shows "sum_list (map (\<lambda>r. f r) (map (lookup c) ps))
       = sum_list (map (\<lambda>x. (f (snd x) :: real)) (filter (\<lambda>x. S (fst x)) (results c)))"
proof -
  have "distinct (filter S (keys c))" using d by simp
  moreover have "set (filter S (keys c)) = set ps" using s by auto
  ultimately have m: "mset ps = mset (filter S (keys c))"
    using set_eq_iff_mset_eq_distinct [OF dp, of "filter S (keys c)"] by blast
  have "sum_list (map (\<lambda>r. f r) (map (lookup c) ps))
      = sum_mset (image_mset (\<lambda>p. f (lookup c p)) (mset ps))"
    by (simp add: sum_mset_sum_list [symmetric] o_def del: sum_mset_sum_list)
  also have "\<dots> = sum_list (map (\<lambda>p. f (lookup c p)) (filter S (keys c)))"
    unfolding m by (simp add: sum_mset_sum_list [symmetric] del: sum_mset_sum_list)
  also have "filter S (keys c) = map fst (filter (\<lambda>x. S (fst x)) (results c))"
    by (simp add: keys_def filter_map o_def)
  also have "sum_list (map (\<lambda>p. f (lookup c p)) (map fst (filter (\<lambda>x. S (fst x)) (results c))))
      = sum_list (map (\<lambda>x. f (snd x)) (filter (\<lambda>x. S (fst x)) (results c)))"
    unfolding map_map o_def
    by (intro arg_cong [where f = sum_list] map_cong refl) (simp add: lookup_mem [OF d])
  finally show ?thesis .
qed

lemma design_row:
  assumes d: "distinct (keys c)" and dp: "distinct ps"
    and s: "set ps = {p \<in> set (keys c). jk_selected c i p}"
  shows "emap (result_at c) ps = Inr (map (lookup c) ps)"
    "np_sum_rows n (map xi (map (lookup c) ps)) = map (jk_num c i) [0..<n]"
    "np_sum_rows n (map weight (map (lookup c) ps)) = map (jk_denom c i) [0..<n]"
proof -
  from s show "emap (result_at c) ps = Inr (map (lookup c) ps)"
    by (intro emap_keys) auto
  show "np_sum_rows n (map xi (map (lookup c) ps)) = map (jk_num c i) [0..<n]"
    unfolding np_sum_rows_def jk_num_def
    using sum_over_selection [OF d dp s, of "\<lambda>r. xi r ! k" for k]
    by (simp add: o_def)
  show "np_sum_rows n (map weight (map (lookup c) ps)) = map (jk_denom c i) [0..<n]"
    unfolding np_sum_rows_def jk_denom_def
    using sum_over_selection [OF d dp s, of "\<lambda>r. weight r ! k" for k]
    by (simp add: o_def)
qed

lemma npatch_pos:
  assumes "store_invariant c"
  shows "0 < npatch1_of c" "0 < npatch2_of c"
  using assms by (simp_all add: store_invariant_def npatch1_of_def npatch2_of_def count_distinct_pos)

lemma keys_second_singleton:
  assumes "store_invariant c" "npatch2_of c = 1"
  shows "set (keys c) = (\<lambda>j. (j, 0 :: nat)) ` {0..<npatch1_of c}"
proof (intro set_eqI iffI)
  fix p assume p: "p \<in> set (keys c)"
  then have "snd p \<in> set (map snd (keys c))" "fst p \<in> set (map fst (keys c))" by auto
  with assms have "snd p = 0" "fst p < npatch1_of c" by (auto simp: store_invariant_def)
  then show "p \<in> (\<lambda>j. (j, 0 :: nat)) ` {0..<npatch1_of c}" by (cases p) auto
next
  fix p assume "p \<in> (\<lambda>j. (j, 0 :: nat)) ` {0..<npatch1_of c}"
  then obtain j where j: "p = (j, 0)" "j < npatch1_of c" by auto
  with assms have "j \<in> set (map fst (keys c))" by (simp add: store_invariant_def)
  then obtain q where q: "q \<in> set (keys c)" "fst q = j" by auto
  then have "snd q \<in> set (map snd (keys c))" by auto
  with assms have "snd q = 0" by (auto simp: store_invariant_def)
  with q(2) have "q = (j, 0)" by (cases q) simp
  with q(1) j(1) show "p \<in> set (keys c)" by simp
qed

lemma keys_first_singleton:
  assumes "store_invariant c" "npatch1_of c = 1"
  shows "set (keys c) = (\<lambda>j. (0 :: nat, j)) ` {0..<npatch2_of c}"
proof (intro set_eqI iffI)
  fix p assume p: "p \<in> set (keys c)"
  then have "snd p \<in> set (map snd (keys c))" "fst p \<in> set (map fst (keys c))" by auto
  with assms have "fst p = 0" "snd p < npatch2_of c" by (auto simp: store_invariant_def)
  then show "p \<in> (\<lambda>j. (0 :: nat, j)) ` {0..<npatch2_of c}" by (cases p) auto
next
  fix p assume "p \<in> (\<lambda>j. (0 :: nat, j)) ` {0..<npatch2_of c}"
  then obtain j where j: "p = (0, j)" "j < npatch2_of c" by auto
  with assms have "j \<in> set (map snd (keys c))" by (simp add: store_invariant_def)
  then obtain q where q: "q \<in> set (keys c)" "snd q = j" by auto
  then have "fst q \<in> set (map fst (keys c))" by auto
  with assms have "fst q = 0" by (auto simp: store_invariant_def)
  with q(2) have "q = (0, j)" by (cases q) simp
  with q(1) j(1) show "p \<in> set (keys c)" by simp
qed

lemma concat_map_if: "concat (map (\<lambda>x. if P x then [f x] else []) xs) = map f (filter P xs)"
  by (induction xs) simp_all

lemma jackknife_pairs_rows:
  assumes "store_invariant c"
  shows "jackknife_pairs (npatch1_of c) (npatch2_of c) (keys c)
           = Inr (map (jk_row c) [0..<npatch_of c])"
proof -
  note p = npatch_pos [OF assms]
  have f: "[(j, k). (j, k) \<leftarrow> keys c, j \<noteq> i \<and> k \<noteq> i]
         = filter (\<lambda>p. fst p \<noteq> i \<and> snd p \<noteq> i) (keys c)" for i
  proof -
    have "(\<lambda>(j, k). if j \<noteq> i \<and> k \<noteq> i then [(j, k)] else [])
        = (\<lambda>p :: pair. if fst p \<noteq> i \<and> snd p \<noteq> i then [p] else [])"
      by (auto simp: fun_eq_iff)
    then show ?thesis
      using concat_map_if [of "\<lambda>p. fst p \<noteq> i \<and> snd p \<noteq> i" "\<lambda>p. p" "keys c"]
      by simp
  qed
  show ?thesis
  proof (cases "npatch2_of c = 1")
    case True
    with p have "npatch_of c = npatch1_of c" by (simp add: npatch_of_def max_def)
    with True show ?thesis by (simp add: jackknife_pairs_def jk_row_def concat_map_if)
  next
    case n2: False
    show ?thesis
    proof (cases "npatch1_of c = 1")
      case True
      with p have "npatch_of c = npatch2_of c" by (simp add: npatch_of_def max_def)
      with True n2 show ?thesis by (simp add: jackknife_pairs_def jk_row_def concat_map_if)
    next
      case False
      with n2 assms have e: "npatch1_of c = npatch2_of c" by (simp add: store_invariant_def)
      then have "npatch_of c = npatch1_of c" by (simp add: npatch_of_def)
      with False n2 e show ?thesis by (simp add: jackknife_pairs_def jk_row_def f)
    qed
  qed
qed

lemma jk_row_selected:
  assumes "store_invariant c"
  shows "distinct (jk_row c i)" "set (jk_row c i) = {p \<in> set (keys c). jk_selected c i p}"
proof -
  from assms have d: "distinct (keys c)" by (simp add: store_invariant_def)
  show "distinct (jk_row c i)"
    using d by (simp add: jk_row_def distinct_map inj_on_def)
  show "set (jk_row c i) = {p \<in> set (keys c). jk_selected c i p}"
  proof (cases "npatch2_of c = 1")
    case True
    with keys_second_singleton [OF assms True] show ?thesis
      by (auto simp: jk_row_def jk_selected_def)
  next
    case n2: False
    show ?thesis
    proof (cases "npatch1_of c = 1")
      case True
      with keys_first_singleton [OF assms True] n2 show ?thesis
        by (auto simp: jk_row_def jk_selected_def)
    next
      case False
      with n2 show ?thesis by (auto simp: jk_row_def jk_selected_def)
    qed
  qed
qed

lemma jk_design:
  assumes "store_invariant c"
  shows "ebind (jackknife_pairs (npatch1_of c) (npatch2_of c) (keys c)) (make_cov_design_matrix c)
       = Inr (map (\<lambda>i. map (jk_num c i) [0..<getStatLen c]) [0..<npatch_of c],
              map (\<lambda>i. map (jk_denom c i) [0..<getStatLen c]) [0..<npatch_of c])"
proof -
  from assms have d: "distinct (keys c)" by (simp add: store_invariant_def)
  note row = design_row [OF d jk_row_selected [OF assms]]
  have "emap (emap (result_at c)) (map (jk_row c) [0..<npatch_of c])
      = Inr (map (\<lambda>ps. map (lookup c) ps) (map (jk_row c) [0..<npatch_of c]))"
    by (rule emap_Inr_map) (auto simp: row(1))
  then show ?thesis
    by (simp add: jackknife_pairs_rows [OF assms] make_cov_design_matrix_def o_def
          row(2,3) [unfolded map_map o_def])
qed

lemma hstack_single: "hstack [m] = Inr m"
  by (simp add: hstack_def map_nth)

lemma map2_same: "map2 f (map g xs) (map h xs) = map (\<lambda>x. f (g x) (h x)) xs"
  by (induction xs) simp_all

lemma jackknife_single:
  assumes "store_invariant c" "jk_defined c"
  shows "cov_jackknife [c] = Inr (map (map Fin) (jackknife_spec c))"
proof -
  let ?n = "npatch_of c" and ?N = "getStatLen c"
  have rows: "vec_div (map (jk_num c i) [0..<?N]) (map (jk_denom c i) [0..<?N])
      = map Fin (map (jk_stat c i) [0..<?N])" if "i \<in> set [0..<?n]" for i
    using that assms(2)
    by (subst vec_div_Fin) (simp_all add: jk_defined_def jk_stat_def [abs_def])
  have "cov_jackknife [c]
      = Inr (scale (Fin (1 - 1 / real ?n))
              (gram ?N (center ?N
                (map (\<lambda>i. vec_div (map (jk_num c i) [0..<?N]) (map (jk_denom c i) [0..<?N]))
                   [0..<?n]))))"
    unfolding cov_jackknife_def gpn_single [OF assms(1)]
    by (simp add: design_matrices_def jk_design [OF assms(1)] hstack_single mat_div_def map2_same
          total_len_def)
  also have "map (\<lambda>i. vec_div (map (jk_num c i) [0..<?N]) (map (jk_denom c i) [0..<?N])) [0..<?n]
      = map (map Fin) (map (\<lambda>i. map (jk_stat c i) [0..<?N]) [0..<?n])"
    by (simp add: rows)
  finally have e: "cov_jackknife [c]
      = Inr (scale (Fin (1 - 1 / real ?n))
              (gram ?N (center ?N
                (map (map Fin) (map (\<lambda>i. map (jk_stat c i) [0..<?N]) [0..<?n])))))" .
  show ?thesis
    unfolding e
    by (subst cov_finite) (simp_all add: covariance_of_rows jackknife_spec_def jk_mean_def)
qed

lemma cov_jackknife_symmetric:
  assumes "cov_jackknife corrs = Inr C" "k < total_len corrs" "l < total_len corrs"
  shows "C ! k ! l = C ! l ! k"
proof -
  from assms(1) obtain f v where "C = scale f (gram (total_len corrs) v)"
    unfolding cov_jackknife_def ebind_Inr case_prod_beta by auto
  with assms(2,3) show ?thesis by (simp add: scale_gram_symmetric)
qed

lemma sum_list_filter_mset:
  fixes f :: "'a \<Rightarrow> real"
  assumes "mset xs = mset ys"
  shows "sum_list (map f (filter P xs)) = sum_list (map f (filter P ys))"
proof -
  have "mset (map f (filter P xs)) = mset (map f (filter P ys))"
    using assms by (simp add: mset_filter [symmetric] del: mset_filter) (metis mset_filter)
  then show ?thesis by (metis sum_mset_sum_list)
qed

lemma permuted_store:
  assumes "mset rs = mset (results c)"
  shows "set (keys (c\<lparr>results := rs\<rparr>)) = set (keys c)"
    "mset (keys (c\<lparr>results := rs\<rparr>)) = mset (keys c)"
    "npatch1_of (c\<lparr>results := rs\<rparr>) = npatch1_of c"
    "npatch2_of (c\<lparr>results := rs\<rparr>) = npatch2_of c"
proof -
  show m: "mset (keys (c\<lparr>results := rs\<rparr>)) = mset (keys c)"
    using assms by (simp add: keys_def)
  then show s: "set (keys (c\<lparr>results := rs\<rparr>)) = set (keys c)"
    by (rule mset_eq_setD)
  from s have "fst ` set (keys (c\<lparr>results := rs\<rparr>)) = fst ` set (keys c)"
    "snd ` set (keys (c\<lparr>results := rs\<rparr>)) = snd ` set (keys c)" by simp_all
  then show "npatch1_of (c\<lparr>results := rs\<rparr>) = npatch1_of c"
    "npatch2_of (c\<lparr>results := rs\<rparr>) = npatch2_of c"
    by (simp_all add: npatch1_of_def npatch2_of_def count_distinct_card)
qed

lemma permuted_store_invariant:
  assumes "store_invariant c" "mset rs = mset (results c)"
  shows "store_invariant (c\<lparr>results := rs\<rparr>)"
proof -
  note p = permuted_store [OF assms(2)]
  from assms(1) have "distinct (keys c)" by (simp add: store_invariant_def)
  then have "distinct (keys (c\<lparr>results := rs\<rparr>))"
    using p(2) by (metis mset_eq_imp_distinct_iff)
  moreover from assms(1) p(1) have "keys (c\<lparr>results := rs\<rparr>) \<noteq> []"
    by (auto simp: store_invariant_def)
  moreover have "set (map fst (keys (c\<lparr>results := rs\<rparr>))) = set (map fst (keys c))"
    "set (map snd (keys (c\<lparr>results := rs\<rparr>))) = set (map snd (keys c))"
    using p(1) by simp_all
  ultimately show ?thesis
    using assms(1) unfolding store_invariant_def p(3,4) by simp
qed

lemma permuted_store_sums:
  assumes "mset rs = mset (results c)"
  shows "jk_num (c\<lparr>results := rs\<rparr>) = jk_num c" "jk_denom (c\<lparr>results := rs\<rparr>) = jk_denom c"
    "npatch_of (c\<lparr>results := rs\<rparr>) = npatch_of c"
proof -
  note p = permuted_store [OF assms]
  have sel: "jk_selected (c\<lparr>results := rs\<rparr>) = jk_selected c"
    by (simp add: jk_selected_def fun_eq_iff p(3,4))
  show "jk_num (c\<lparr>results := rs\<rparr>) = jk_num c" "jk_denom (c\<lparr>results := rs\<rparr>) = jk_denom c"
    by (simp_all add: jk_num_def jk_denom_def fun_eq_iff sel sum_list_filter_mset [OF assms])
  show "npatch_of (c\<lparr>results := rs\<rparr>) = npatch_of c"
    by (simp add: npatch_of_def p(3,4))
qed

lemma permuted_store_defined:
  assumes "mset rs = mset (results c)" "jk_defined c"
  shows "jk_defined (c\<lparr>results := rs\<rparr>)"
  using assms(2) by (simp add: jk_defined_def permuted_store_sums [OF assms(1)])

lemma permuted_store_spec:
  assumes "mset rs = mset (results c)"
  shows "jackknife_spec (c\<lparr>results := rs\<rparr>) = jackknife_spec c"
proof -
  note p = permuted_store_sums [OF assms]
  have st: "jk_stat (c\<lparr>results := rs\<rparr>) = jk_stat c"
    by (simp add: jk_stat_def fun_eq_iff p(1,2))
  have "jk_mean (c\<lparr>results := rs\<rparr>) = jk_mean c"
    by (simp add: jk_mean_def fun_eq_iff st p(3))
  then show ?thesis by (simp add: jackknife_spec_def st p(3))
qed

lemma jackknife_store_order:
  assumes "store_invariant c" "jk_defined c" "mset rs = mset (results c)"
  shows "cov_jackknife [c\<lparr>results := rs\<rparr>] = cov_jackknife [c]"
  by (simp add: jackknife_single [OF assms(1,2)]
        jackknife_single [OF permuted_store_invariant [OF assms(1,3)]
          permuted_store_defined [OF assms(3,2)]]
        permuted_store_spec [OF assms(3)])

lemma sum_list_upt_reindex:
  fixes g :: "nat \<Rightarrow> real"
  assumes "bij_betw \<pi> {0..<n} {0..<n}"
  shows "sum_list (map g [0..<n]) = sum_list (map (\<lambda>i. g (\<pi> i)) [0..<n])"
proof -
  have "sum_list (map g [0..<n]) = sum g {0..<n}"
    by (simp add: interv_sum_list_conv_sum_set_nat)
  also have "\<dots> = sum (\<lambda>i. g (\<pi> i)) {0..<n}"
    by (rule sum.reindex_bij_betw [OF assms, symmetric])
  also have "\<dots> = sum_list (map (\<lambda>i. g (\<pi> i)) [0..<n])"
    by (simp add: interv_sum_list_conv_sum_set_nat)
  finally show ?thesis .
qed

lemma npatch_of_axis:
  assumes "store_invariant c"
  shows "npatch1_of c \<noteq> 1 \<Longrightarrow> npatch_of c = npatch1_of c"
    "npatch2_of c \<noteq> 1 \<Longrightarrow> npatch_of c = npatch2_of c"
  using assms npatch_pos [OF assms]
  by (auto simp: store_invariant_def npatch_of_def max_def)

lemma key_bounds:
  assumes "store_invariant c" "p \<in> set (keys c)"
  shows "fst p < npatch1_of c" "snd p < npatch2_of c"
proof -
  from assms(2) have "fst p \<in> set (map fst (keys c))" "snd p \<in> set (map snd (keys c))" by auto
  with assms(1) show "fst p < npatch1_of c" "snd p < npatch2_of c"
    by (simp_all add: store_invariant_def)
qed

lemma relabel_axis1:
  assumes "store_invariant c" "bij_betw \<pi> {0..<npatch_of c} {0..<npatch_of c}"
  shows "inj_on (\<lambda>j. if npatch1_of c = 1 then j else \<pi> j) {0..<npatch1_of c}"
    "(\<lambda>j. if npatch1_of c = 1 then j else \<pi> j) ` {0..<npatch1_of c} = {0..<npatch1_of c}"
proof -
  show "inj_on (\<lambda>j. if npatch1_of c = 1 then j else \<pi> j) {0..<npatch1_of c}"
  proof (cases "npatch1_of c = 1")
    case True then show ?thesis by (simp add: inj_on_def)
  next
    case False
    with assms(2) npatch_of_axis(1) [OF assms(1)] show ?thesis
      by (simp add: bij_betw_def)
  qed
  show "(\<lambda>j. if npatch1_of c = 1 then j else \<pi> j) ` {0..<npatch1_of c} = {0..<npatch1_of c}"
  proof (cases "npatch1_of c = 1")
    case True then show ?thesis by simp
  next
    case False
    with assms(2) npatch_of_axis(1) [OF assms(1)] show ?thesis
      by (simp add: bij_betw_def)
  qed
qed

lemma relabel_axis2:
  assumes "store_invariant c" "bij_betw \<pi> {0..<npatch_of c} {0..<npatch_of c}"
  shows "inj_on (\<lambda>j. if npatch2_of c = 1 then j else \<pi> j) {0..<npatch2_of c}"
    "(\<lambda>j. if npatch2_of c = 1 then j else \<pi> j) ` {0..<npatch2_of c} = {0..<npatch2_of c}"
proof -
  show "inj_on (\<lambda>j. if npatch2_of c = 1 then j else \<pi> j) {0..<npatch2_of c}"
  proof (cases "npatch2_of c = 1")
    case True then show ?thesis by (simp add: inj_on_def)
  next
    case False
    with assms(2) npatch_of_axis(2) [OF assms(1)] show ?thesis
      by (simp add: bij_betw_def)
  qed
  show "(\<lambda>j. if npatch2_of c = 1 then j else \<pi> j) ` {0..<npatch2_of c} = {0..<npatch2_of c}"
  proof (cases "npatch2_of c = 1")
    case True then show ?thesis by simp
  next
    case False
    with assms(2) npatch_of_axis(2) [OF assms(1)] show ?thesis
      by (simp add: bij_betw_def)
  qed
qed

lemma relabel_keys:
  "keys (relabel_patches \<pi> c) = map (relabel_key c \<pi>) (keys c)"
  by (simp add: relabel_patches_def keys_def o_def)

lemma relabel_counts:
  assumes "store_invariant c" "bij_betw \<pi> {0..<npatch_of c} {0..<npatch_of c}"
  shows "set (map fst (keys (relabel_patches \<pi> c))) = {0..<npatch1_of c}"
    "set (map snd (keys (relabel_patches \<pi> c))) = {0..<npatch2_of c}"
    "npatch1_of (relabel_patches \<pi> c) = npatch1_of c"
    "npatch2_of (relabel_patches \<pi> c) = npatch2_of c"
proof -
  from assms(1) have s: "fst ` set (keys c) = {0..<npatch1_of c}"
    "snd ` set (keys c) = {0..<npatch2_of c}" by (simp_all add: store_invariant_def)
  have "set (map fst (keys (relabel_patches \<pi> c)))
      = (\<lambda>j. if npatch1_of c = 1 then j else \<pi> j) ` fst ` set (keys c)"
    by (simp add: relabel_keys image_image relabel_key_def)
  then show 1: "set (map fst (keys (relabel_patches \<pi> c))) = {0..<npatch1_of c}"
    by (simp only: s relabel_axis1(2) [OF assms])
  have "set (map snd (keys (relabel_patches \<pi> c)))
      = (\<lambda>j. if npatch2_of c = 1 then j else \<pi> j) ` snd ` set (keys c)"
    by (simp add: relabel_keys image_image relabel_key_def)
  then show 2: "set (map snd (keys (relabel_patches \<pi> c))) = {0..<npatch2_of c}"
    by (simp only: s relabel_axis2(2) [OF assms])
  have "npatch1_of (relabel_patches \<pi> c) = card (set (map fst (keys (relabel_patches \<pi> c))))"
    by (simp only: npatch1_of_def count_distinct_card)
  also have "\<dots> = card {0..<npatch1_of c}" by (simp only: 1)
  finally show "npatch1_of (relabel_patches \<pi> c) = npatch1_of c" by simp
  have "npatch2_of (relabel_patches \<pi> c) = card (set (map snd (keys (relabel_patches \<pi> c))))"
    by (simp only: npatch2_of_def count_distinct_card)
  also have "\<dots> = card {0..<npatch2_of c}" by (simp only: 2)
  finally show "npatch2_of (relabel_patches \<pi> c) = npatch2_of c" by simp
qed

lemma relabel_key_inj:
  assumes "store_invariant c" "bij_betw \<pi> {0..<npatch_of c} {0..<npatch_of c}"
  shows "inj_on (relabel_key c \<pi>) (set (keys c))"
proof (rule inj_onI)
  fix p q assume p: "p \<in> set (keys c)" and q: "q \<in> set (keys c)"
    and e: "relabel_key c \<pi> p = relabel_key c \<pi> q"
  note bp = key_bounds [OF assms(1) p] and bq = key_bounds [OF assms(1) q]
  from e have e1: "(if npatch1_of c = 1 then fst p else \<pi> (fst p))
             = (if npatch1_of c = 1 then fst q else \<pi> (fst q))"
    and e2: "(if npatch2_of c = 1 then snd p else \<pi> (snd p))
             = (if npatch2_of c = 1 then snd q else \<pi> (snd q))"
    by (simp_all add: relabel_key_def)
  have "fst p = fst q"
    by (rule inj_onD [OF relabel_axis1(1) [OF assms] e1]) (simp_all add: bp bq)
  moreover have "snd p = snd q"
    by (rule inj_onD [OF relabel_axis2(1) [OF assms] e2]) (simp_all add: bp bq)
  ultimately show "p = q" by (rule prod_eqI)
qed

lemma relabel_invariant:
  assumes "store_invariant c" "bij_betw \<pi> {0..<npatch_of c} {0..<npatch_of c}"
  shows "store_invariant (relabel_patches \<pi> c)"
proof -
  note rc = relabel_counts [OF assms]
  from assms(1) have d: "distinct (keys c)" and ne: "keys c \<noteq> []"
    and ax: "npatch1_of c = npatch2_of c \<or> npatch1_of c = 1 \<or> npatch2_of c = 1"
    by (simp_all add: store_invariant_def)
  have "distinct (keys (relabel_patches \<pi> c))"
    unfolding relabel_keys using d relabel_key_inj [OF assms] by (simp add: distinct_map)
  moreover have "keys (relabel_patches \<pi> c) \<noteq> []"
    using ne by (simp add: relabel_keys)
  ultimately show ?thesis
    unfolding store_invariant_def rc(3,4) using rc(1,2) ax by simp
qed

lemma relabel_selected:
  assumes "store_invariant c" "bij_betw \<pi> {0..<npatch_of c} {0..<npatch_of c}"
    and "i < npatch_of c" "p \<in> set (keys c)"
  shows "jk_selected c (\<pi> i) (relabel_key c \<pi> p) = jk_selected c i p"
proof -
  note bp = key_bounds [OF assms(1,4)]
  note ax = npatch_of_axis [OF assms(1)]
  from assms(2) have inj: "inj_on \<pi> {0..<npatch_of c}" by (simp add: bij_betw_def)
  have one: "\<pi> i = i \<and> fst p = i" if "npatch1_of c = 1" "npatch2_of c = 1"
  proof -
    from that have n: "npatch_of c = 1" by (simp add: npatch_of_def)
    with assms(3) have i: "i = 0" by simp
    from assms(2) n have "\<pi> 0 \<in> {0..<1}" by (auto simp: bij_betw_def)
    with i bp(1) that show ?thesis by simp
  qed
  show ?thesis
  proof (cases "npatch2_of c = 1")
    case n2: True
    show ?thesis
    proof (cases "npatch1_of c = 1")
      case True
      with one [OF True n2] n2 show ?thesis by (simp add: jk_selected_def relabel_key_def)
    next
      case False
      with ax(1) bp(1) assms(3) inj have "(\<pi> (fst p) = \<pi> i) = (fst p = i)"
        by (auto simp: inj_on_def)
      with False n2 show ?thesis by (simp add: jk_selected_def relabel_key_def)
    qed
  next
    case n2: False
    with ax(2) bp(2) assms(3) inj have s: "(\<pi> (snd p) = \<pi> i) = (snd p = i)"
      by (auto simp: inj_on_def)
    show ?thesis
    proof (cases "npatch1_of c = 1")
      case True
      with n2 s show ?thesis by (simp add: jk_selected_def relabel_key_def)
    next
      case False
      with ax(1) bp(1) assms(3) inj have "(\<pi> (fst p) = \<pi> i) = (fst p = i)"
        by (auto simp: inj_on_def)
      with False n2 s show ?thesis by (simp add: jk_selected_def relabel_key_def)
    qed
  qed
qed

lemma relabel_sums:
  assumes "store_invariant c" "bij_betw \<pi> {0..<npatch_of c} {0..<npatch_of c}"
    and "i < npatch_of c"
  shows "sum_list (map (\<lambda>x. f (snd x))
            (filter (\<lambda>x. jk_selected (relabel_patches \<pi> c) (\<pi> i) (fst x))
               (results (relabel_patches \<pi> c))))
       = sum_list (map (\<lambda>x. (f (snd x) :: real))
            (filter (\<lambda>x. jk_selected c i (fst x)) (results c)))"
proof -
  note rc = relabel_counts(3,4) [OF assms(1,2)]
  have sel: "jk_selected (relabel_patches \<pi> c) = jk_selected c"
    by (simp add: jk_selected_def fun_eq_iff rc)
  have "filter (\<lambda>x. jk_selected c (\<pi> i) (relabel_key c \<pi> (fst x))) (results c)
      = filter (\<lambda>x. jk_selected c i (fst x)) (results c)"
    by (rule filter_cong [OF refl]) (simp add: relabel_selected [OF assms] keys_def)
  moreover have "results (relabel_patches \<pi> c)
      = map (\<lambda>x. (relabel_key c \<pi> (fst x), snd x)) (results c)"
    by (simp add: relabel_patches_def)
  ultimately show ?thesis
    unfolding sel by (simp add: filter_map o_def)
qed

lemma relabel_stat:
  assumes "store_invariant c" "bij_betw \<pi> {0..<npatch_of c} {0..<npatch_of c}"
    and "i < npatch_of c"
  shows "jk_stat (relabel_patches \<pi> c) (\<pi> i) k = jk_stat c i k"
  unfolding jk_stat_def jk_num_def jk_denom_def
  by (simp only: relabel_sums [OF assms, of "\<lambda>r. xi r ! k"]
        relabel_sums [OF assms, of "\<lambda>r. weight r ! k"])

lemma relabel_spec:
  assumes "store_invariant c" "bij_betw \<pi> {0..<npatch_of c} {0..<npatch_of c}"
  shows "jackknife_spec (relabel_patches \<pi> c) = jackknife_spec c"
proof -
  let ?c = "relabel_patches \<pi> c"
  have np: "npatch_of ?c = npatch_of c"
    by (simp add: npatch_of_def relabel_counts(3,4) [OF assms])
  have len: "getStatLen ?c = getStatLen c" by (simp add: relabel_patches_def)
  have st: "jk_stat ?c (\<pi> i) k = jk_stat c i k" if "i \<in> set [0..<npatch_of c]" for i k
    using that by (intro relabel_stat [OF assms]) simp
  have mean: "jk_mean ?c k = jk_mean c k" for k
  proof -
    have m: "map (\<lambda>i. jk_stat ?c (\<pi> i) k) [0..<npatch_of c]
        = map (\<lambda>i. jk_stat c i k) [0..<npatch_of c]"
      by (rule map_cong [OF refl]) (rule st)
    have "sum_list (map (\<lambda>i. jk_stat ?c i k) [0..<npatch_of c])
        = sum_list (map (\<lambda>i. jk_stat ?c (\<pi> i) k) [0..<npatch_of c])"
      by (rule sum_list_upt_reindex [OF assms(2)])
    also have "\<dots> = sum_list (map (\<lambda>i. jk_stat c i k) [0..<npatch_of c])"
      by (simp only: m)
    finally show ?thesis unfolding jk_mean_def np by (rule arg_cong)
  qed
  have prod: "sum_list (map (\<lambda>i. (jk_stat ?c i k - jk_mean ?c k) * (jk_stat ?c i l - jk_mean ?c l))
            [0..<npatch_of c])
      = sum_list (map (\<lambda>i. (jk_stat c i k - jk_mean c k) * (jk_stat c i l - jk_mean c l))
            [0..<npatch_of c])" for k l
  proof -
    have m: "map (\<lambda>i. (jk_stat ?c (\<pi> i) k - jk_mean ?c k) * (jk_stat ?c (\<pi> i) l - jk_mean ?c l))
            [0..<npatch_of c]
        = map (\<lambda>i. (jk_stat c i k - jk_mean c k) * (jk_stat c i l - jk_mean c l))
            [0..<npatch_of c]"
      by (rule map_cong [OF refl]) (simp only: st mean)
    have "sum_list (map (\<lambda>i. (jk_stat ?c i k - jk_mean ?c k) * (jk_stat ?c i l - jk_mean ?c l))
            [0..<npatch_of c])
        = sum_list (map (\<lambda>i. (jk_stat ?c (\<pi> i) k - jk_mean ?c k)
                              * (jk_stat ?c (\<pi> i) l - jk_mean ?c l)) [0..<npatch_of c])"
      by (rule sum_list_upt_reindex [OF assms(2)])
    also have "\<dots> = sum_list (map (\<lambda>i. (jk_stat c i k - jk_mean c k)
                              * (jk_stat c i l - jk_mean c l)) [0..<npatch_of c])"
      by (simp only: m)
    finally show ?thesis .
  qed
  show ?thesis
    unfolding jackknife_spec_def np len prod ..
qed

lemma relabel_defined:
  assumes "store_invariant c" "bij_betw \<pi> {0..<npatch_of c} {0..<npatch_of c}" "jk_defined c"
  shows "jk_defined (relabel_patches \<pi> c)"
proof -
  let ?c = "relabel_patches \<pi> c"
  have np: "npatch_of ?c = npatch_of c"
    by (simp add: npatch_of_def relabel_counts(3,4) [OF assms(1,2)])
  have len: "getStatLen ?c = getStatLen c" by (simp add: relabel_patches_def)
  have "jk_denom ?c j k \<noteq> 0" if "j < npatch_of c" "k < getStatLen c" for j k
  proof -
    from assms(2) that(1) obtain i where i: "i < npatch_of c" "j = \<pi> i"
      unfolding bij_betw_def by force
    have "jk_denom ?c (\<pi> i) k = jk_denom c i k"
      unfolding jk_denom_def by (rule relabel_sums [OF assms(1,2) i(1), of "\<lambda>r. weight r ! k"])
    with assms(3) i that(2) show ?thesis by (simp add: jk_defined_def)
  qed
  then show ?thesis by (simp add: jk_defined_def np len)
qed

lemma jackknife_relabel:
  assumes "store_invariant c" "jk_defined c" "bij_betw \<pi> {0..<npatch_of c} {0..<npatch_of c}"
  shows "cov_jackknife [relabel_patches \<pi> c] = cov_jackknife [c]"
  by (simp add: jackknife_single [OF assms(1,2)]
        jackknife_single [OF relabel_invariant [OF assms(1,3)] relabel_defined [OF assms(1,3,2)]]
        relabel_spec [OF assms(1,3)])

text \<open>
  Claim C2. For a result store that satisfies the store invariant (both axes with the same
  number of patches, or one axis with a single patch) and in which every jackknife sample
  has a nonzero summed weight in every bin, the jackknife covariance is the matrix
  \<open>(1 - 1/npatch) * Sum_i (v_i - vmean) (v_i - vmean)^T\<close> with finite entries, where
  \<open>v_i\<close> is the elementwise ratio of the statistic summed over the stored pairs
  \<open>(j,k)\<close> with \<open>j \<noteq> i\<close> and \<open>k \<noteq> i\<close> to the weight summed over the same pairs (with
  a single-patch axis, the samples run over the index of the other axis). The matrix is
  symmetric, it is the same for every order of the entries of the store, and it is the
  same after the patches are renumbered by a permutation. The covariance of any list of
  correlation objects is symmetric as well, whatever its entries are.
\<close>

theorem jackknife_covariance:
  assumes "store_invariant c" "jk_defined c"
  shows "cov_jackknife [c] = Inr (map (map Fin) (jackknife_spec c))
    \<and> (\<forall>k < getStatLen c. \<forall>l < getStatLen c.
          jackknife_spec c ! k ! l = jackknife_spec c ! l ! k)
    \<and> (\<forall>rs. mset rs = mset (results c) \<longrightarrow>
          cov_jackknife [c\<lparr>results := rs\<rparr>] = cov_jackknife [c])
    \<and> (\<forall>\<pi>. bij_betw \<pi> {0..<npatch_of c} {0..<npatch_of c} \<longrightarrow>
          cov_jackknife [relabel_patches \<pi> c] = cov_jackknife [c])
    \<and> (\<forall>corrs C. cov_jackknife corrs = Inr C \<longrightarrow>
          (\<forall>k < total_len corrs. \<forall>l < total_len corrs. C ! k ! l = C ! l ! k))"
proof (intro conjI allI impI)
  show "cov_jackknife [c] = Inr (map (map Fin) (jackknife_spec c))"
    by (rule jackknife_single [OF assms])
  fix k l assume "k < getStatLen c" "l < getStatLen c"
  then show "jackknife_spec c ! k ! l = jackknife_spec c ! l ! k"
    by (simp add: jackknife_spec_def mult.commute)
next
  fix rs assume "mset rs = mset (results c)"
  then show "cov_jackknife [c\<lparr>results := rs\<rparr>] = cov_jackknife [c]"
    by (rule jackknife_store_order [OF assms])
next
  fix \<pi> assume "bij_betw \<pi> {0..<npatch_of c} {0..<npatch_of c}"
  then show "cov_jackknife [relabel_patches \<pi> c] = cov_jackknife [c]"
    by (rule jackknife_relabel [OF assms])
next
  fix corrs C k l
  assume "cov_jackknife corrs = Inr C" "k < total_len corrs" "l < total_len corrs"
  then show "C ! k ! l = C ! l ! k" by (rule cov_jackknife_symmetric)
qed

lemma three_patch_counts:
  "npatch1_of three_patch_store = 3" "npatch2_of three_patch_store = 3"
  "npatch_of three_patch_store = 3"
  by (simp_all add: npatch_of_def npatch1_of_def npatch2_of_def keys_def three_patch_store_def
        count_distinct_def)

lemma three_patch_invariant: "store_invariant three_patch_store"
proof -
  have "{0..<3::nat} = {0, 1, 2}" by auto
  then show ?thesis
    unfolding store_invariant_def three_patch_counts
    by (simp add: keys_def three_patch_store_def insert_commute)
qed

lemma three_patch_spec: "jackknife_spec three_patch_store = [[4 / 81]]"
  unfolding jackknife_spec_def jk_mean_def jk_stat_def jk_num_def jk_denom_def jk_selected_def
    three_patch_counts
  by (simp add: three_patch_store_def patch_result_def upt_3)

lemma swap01_bij: "bij_betw swap01 {0..<3} {0..<3}"
proof -
  have "swap01 ` {0, 1, 2} = {0, 1, 2}" by (auto simp: swap01_def)
  moreover have "inj_on swap01 {0, 1, 2}" by (auto simp: inj_on_def swap01_def)
  moreover have "{0..<3::nat} = {0, 1, 2}" by auto
  ultimately show ?thesis by (simp add: bij_betw_def)
qed

lemma three_patch_defined: "jk_defined three_patch_store"
proof -
  have "jk_denom three_patch_store i 0 = 3" if "i < 3" for i
  proof -
    from that have "i = 0 \<or> i = 1 \<or> i = 2" by auto
    then show ?thesis
      unfolding jk_denom_def jk_selected_def three_patch_counts
      by (auto simp: three_patch_store_def patch_result_def)
  qed
  then show ?thesis
    unfolding jk_defined_def three_patch_counts by (simp add: three_patch_store_def)
qed

theorem jackknife_covariance_witness:
  "cov_jackknife [three_patch_store] = Inr [[Fin (4 / 81)]]
   \<and> cov_jackknife [three_patch_store\<lparr>results := rev (results three_patch_store)\<rparr>]
        = Inr [[Fin (4 / 81)]]
   \<and> cov_jackknife [relabel_patches swap01 three_patch_store] = Inr [[Fin (4 / 81)]]"
proof -
  note t = jackknife_covariance [OF three_patch_invariant three_patch_defined]
  from t have 1: "cov_jackknife [three_patch_store] = Inr [[Fin (4 / 81)]]"
    by (simp add: three_patch_spec)
  from t have "cov_jackknife [three_patch_store\<lparr>results := rev (results three_patch_store)\<rparr>]
      = cov_jackknife [three_patch_store]" by simp
  moreover from t swap01_bij have "cov_jackknife [relabel_patches swap01 three_patch_store]
      = cov_jackknife [three_patch_store]" by (simp add: three_patch_counts)
  ultimately show ?thesis using 1 by simp
qed

text \<open>
  Where a bin has no weight the quotient of line 871 is not-a-number, and so is the
  covariance: the store \<open>empty_bin_store\<close> satisfies the store invariant.
\<close>

lemma jackknife_empty_bin:
  "store_invariant empty_bin_store \<and> cov_jackknife [empty_bin_store] = Inr [[NaN]]"
proof -
  have k: "keys empty_bin_store = [(0, 0), (0, 1), (1, 1)]"
    by (simp add: keys_def empty_bin_store_def two_patch_store_def)
  have n: "npatch1_of empty_bin_store = 2" "npatch2_of empty_bin_store = 2"
    by (simp_all add: npatch1_of_def npatch2_of_def k count_distinct_def)
  have "{0..<2::nat} = {0, 1}" by auto
  then have inv: "store_invariant empty_bin_store"
    unfolding store_invariant_def n by (simp add: k insert_commute)
  have "cov_jackknife [empty_bin_store] = Inr [[NaN]]"
    unfolding cov_jackknife_def gpn_single [OF inv] n
    by (simp add: design_matrices_def jackknife_pairs_def k upt_2 make_cov_design_matrix_def
          result_at_def empty_bin_store_def two_patch_store_def patch_result_def np_sum_rows_def
          keys_def
          hstack_def mat_div_def vec_div_def total_len_def center_def col_mean_def gram_def
          scale_def np_sum_def np_sub_def)
  with inv show ?thesis by simp
qed

section \<open>Properties of the second bootstrap\<close>

lemma randint_bound:
  assumes "0 < n" "i \<in> set (randint rng d n)"
  shows "i < n"
  using assms by (auto simp: randint_def)

lemma bs2_draw_pairs_keys:
  assumes "\<forall>i < n. (i, i) \<in> set (keys c)" "\<forall>i \<in> set indx. i < n"
  shows "set (bs2_draw_pairs c indx) \<subseteq> set (keys c)"
  using assms by (auto simp: bs2_draw_pairs_def)

lemma bootstrap2_single:
  assumes inv: "store_invariant c"
    and sym: "npatch1_of c \<noteq> 1" "npatch2_of c \<noteq> 1"
    and diag: "\<forall>i < npatch_of c. (i, i) \<in> set (keys c)"
    and defined: "bs2_defined rng c" and nb: "num_bootstrap c \<noteq> 1"
  shows "cov_bootstrap2 rng [c] = Inr (map (map Fin) (bootstrap2_spec rng c))"
proof -
  let ?n = "npatch_of c" and ?nb = "nat (num_bootstrap c)" and ?N = "getStatLen c"
  let ?row = "\<lambda>d. bs2_draw_pairs c (randint rng d ?n)"
  from inv sym have eq: "npatch1_of c = npatch2_of c" by (simp add: store_invariant_def)
  from npatch_pos [OF inv] have pos: "0 < ?n" by (simp add: npatch_of_def)
  have mb: "max_num_bootstrap [c] = num_bootstrap c" by (simp add: max_num_bootstrap_def)
  have pairs: "bootstrap2_pairs (npatch1_of c) (npatch2_of c) (keys c) indx
      = Inr (bs2_draw_pairs c indx)" for indx
    using sym eq by (simp add: bootstrap2_pairs_def bs2_draw_pairs_def)
  have rows: "emap (\<lambda>d. bootstrap2_pairs (npatch1_of c) (npatch2_of c) (keys c)
                          (randint rng d ?n)) [0..<?nb]
      = Inr (map ?row [0..<?nb])"
    by (rule emap_Inr_map) (simp add: pairs)
  have sub: "set (?row d) \<subseteq> set (keys c)" for d
    using diag randint_bound [OF pos] by (intro bs2_draw_pairs_keys [of ?n]) auto
  have look: "emap (emap (result_at c)) (map ?row [0..<?nb])
      = Inr (map (\<lambda>ps. map (lookup c) ps) (map ?row [0..<?nb]))"
    by (rule emap_Inr_map) (auto simp: emap_keys [OF sub])
  have design: "bootstrap2_design rng ?n ?nb [c] [(npatch1_of c, npatch2_of c, keys c)]
      = Inr [(map (\<lambda>d. map (bs2_num c (randint rng d ?n)) [0..<?N]) [0..<?nb],
              map (\<lambda>d. map (bs2_denom c (randint rng d ?n)) [0..<?N]) [0..<?nb])]"
    by (simp add: bootstrap2_design_def enumerate_eq_zip rows make_cov_design_matrix_def look
          np_sum_rows_def o_def bs2_num_def [abs_def] bs2_denom_def [abs_def])
  have quot: "vec_div (map (bs2_num c (randint rng d ?n)) [0..<?N])
                (map (bs2_denom c (randint rng d ?n)) [0..<?N])
      = map Fin (map (bs2_stat c (randint rng d ?n)) [0..<?N])" if "d \<in> set [0..<?nb]" for d
    using that defined
    by (subst vec_div_Fin) (simp_all add: bs2_defined_def bs2_stat_def [abs_def])
  have "cov_bootstrap2 rng [c]
      = Inr (scale (bootstrap_factor (num_bootstrap c))
              (gram ?N (center ?N
                (map (\<lambda>d. vec_div (map (bs2_num c (randint rng d ?n)) [0..<?N])
                                  (map (bs2_denom c (randint rng d ?n)) [0..<?N]))
                   [0..<?nb]))))"
    unfolding cov_bootstrap2_def bootstrap2_samples_def gpn_single [OF inv] mb
    by (simp add: design hstack_single mat_div_def map2_same total_len_def)
  also have "map (\<lambda>d. vec_div (map (bs2_num c (randint rng d ?n)) [0..<?N])
                                  (map (bs2_denom c (randint rng d ?n)) [0..<?N])) [0..<?nb]
      = map (map Fin) (map (\<lambda>d. map (bs2_stat c (randint rng d ?n)) [0..<?N]) [0..<?nb])"
    by (simp add: quot)
  finally have e: "cov_bootstrap2 rng [c]
      = Inr (scale (Fin (1 / (real_of_int (num_bootstrap c) - 1)))
              (gram ?N (center ?N
                (map (map Fin)
                   (map (\<lambda>d. map (bs2_stat c (randint rng d ?n)) [0..<?N]) [0..<?nb])))))"
    by (simp only: bootstrap_factor_Fin [OF nb])
  show ?thesis
    unfolding e
    by (subst cov_finite) (simp_all add: covariance_of_rows bootstrap2_spec_def bs2_mean_def)
qed

text \<open>
  Claim C3, as the code has it. For a store in the symmetric case (the store invariant,
  more than one patch on both axes, every auto-pair stored), the list of pairs of a
  bootstrap2 resampling contains the auto-pair \<open>(i,i)\<close> once per occurrence of \<open>i\<close> in
  the draw, and a stored cross pair \<open>(i,j)\<close>, \<open>i \<noteq> j\<close>, as many times as the product of
  the numbers of occurrences of \<open>i\<close> and of \<open>j\<close> in the draw; a cross pair that is not
  stored does not occur. The statistic of a draw is the ratio of the summed statistic to
  the summed weight over this list; where every draw has a nonzero summed weight in every
  bin and the number of resamplings is not 1, the covariance is the matrix
  \<open>1/(nboot - 1) * Sum_k (v_k - vmean) (v_k - vmean)^T\<close> with finite entries.
\<close>

theorem bootstrap2_resampling:
  assumes "store_invariant c" "npatch1_of c \<noteq> 1" "npatch2_of c \<noteq> 1"
    and "\<forall>i < npatch_of c. (i, i) \<in> set (keys c)"
  shows "bootstrap2_pairs (npatch1_of c) (npatch2_of c) (keys c) indx
           = Inr (bs2_draw_pairs c indx)
    \<and> (\<forall>i. count_list (bs2_draw_pairs c indx) (i, i) = count_list indx i)
    \<and> (\<forall>i j. i \<noteq> j \<longrightarrow> count_list (bs2_draw_pairs c indx) (i, j)
           = (if (i, j) \<in> set (keys c) then count_list indx i * count_list indx j else 0))
    \<and> (bs2_defined rng c \<and> num_bootstrap c \<noteq> 1 \<longrightarrow>
          cov_bootstrap2 rng [c] = Inr (map (map Fin) (bootstrap2_spec rng c)))"
proof -
  from assms(1-3) have "npatch1_of c = npatch2_of c" by (simp add: store_invariant_def)
  with assms(2) have "bootstrap2_pairs (npatch1_of c) (npatch2_of c) (keys c) indx
           = Inr (bs2_draw_pairs c indx)"
    by (simp add: bootstrap2_pairs_def bs2_draw_pairs_def)
  moreover have "\<forall>i. count_list (bs2_draw_pairs c indx) (i, i) = count_list indx i"
    by (simp add: bs2_draw_pairs_def count_list_diag count_list_cross)
  moreover have "\<forall>i j. i \<noteq> j \<longrightarrow> count_list (bs2_draw_pairs c indx) (i, j)
           = (if (i, j) \<in> set (keys c) then count_list indx i * count_list indx j else 0)"
    by (simp add: bs2_draw_pairs_def count_list_diag count_list_cross)
  moreover have "bs2_defined rng c \<and> num_bootstrap c \<noteq> 1 \<longrightarrow>
          cov_bootstrap2 rng [c] = Inr (map (map Fin) (bootstrap2_spec rng c))"
    using bootstrap2_single [OF assms] by blast
  ultimately show ?thesis by blast
qed

lemma three_patch_keys:
  "keys three_patch_store = [(0,0),(0,1),(0,2),(1,1),(1,2),(2,2)]"
  by (simp add: keys_def three_patch_store_def)

lemma three_patch_diag: "\<forall>i < npatch_of three_patch_store. (i, i) \<in> set (keys three_patch_store)"
proof (intro allI impI)
  fix i assume "i < npatch_of three_patch_store"
  then have "i = 0 \<or> i = 1 \<or> i = 2" by (auto simp: three_patch_counts)
  then show "(i, i) \<in> set (keys three_patch_store)" by (auto simp: three_patch_keys)
qed

lemma rng_repeat_draws:
  "randint rng_repeat 0 3 = [0, 0, 1]" "randint rng_repeat 1 3 = [0, 1, 2]"
  by (simp_all add: randint_def rng_repeat_def upt_3)

lemma three_patch_lookup:
  "lookup three_patch_store (0, 0) = patch_result 0 1"
  "lookup three_patch_store (0, Suc 0) = patch_result 1 1"
  "lookup three_patch_store (0, 2) = patch_result 0 1"
  "lookup three_patch_store (Suc 0, Suc 0) = patch_result 0 1"
  "lookup three_patch_store (Suc 0, 2) = patch_result 0 1"
  "lookup three_patch_store (2, 2) = patch_result 0 1"
  by (simp_all add: lookup_def three_patch_store_def)

lemma three_patch_bs2_sums:
  "bs2_num three_patch_store [0, 0, 1] 0 = 2" "bs2_denom three_patch_store [0, 0, 1] 0 = 5"
  "bs2_num three_patch_store [0, 1, 2] 0 = 1" "bs2_denom three_patch_store [0, 1, 2] 0 = 6"
  by (simp_all add: bs2_num_def bs2_denom_def bs2_draw_pairs_def three_patch_keys
        three_patch_lookup patch_result_def)

lemma three_patch_bs2_spec: "bootstrap2_spec rng_repeat three_patch_store = [[49 / 1800]]"
proof -
  have n: "num_bootstrap three_patch_store = 2" "getStatLen three_patch_store = 1"
    by (simp_all add: three_patch_store_def)
  have s: "bs2_stat three_patch_store [0, 0, 1] 0 = 2 / 5"
    "bs2_stat three_patch_store [0, 1, 2] 0 = 1 / 6"
    by (simp_all add: bs2_stat_def three_patch_bs2_sums [unfolded One_nat_def])
  show ?thesis
    unfolding bootstrap2_spec_def bs2_mean_def n three_patch_counts
    by (simp add: upt_2 rng_repeat_draws [unfolded One_nat_def] s [unfolded One_nat_def])
qed

lemma three_patch_bs2_defined: "bs2_defined rng_repeat three_patch_store"
proof -
  have n: "num_bootstrap three_patch_store = 2" "getStatLen three_patch_store = 1"
    by (simp_all add: three_patch_store_def)
  have "bs2_denom three_patch_store (randint rng_repeat d 3) 0 \<noteq> 0" if "d < 2" for d
  proof -
    from that have "d = 0 \<or> d = 1" by auto
    then show ?thesis
      by (auto simp: rng_repeat_draws [unfolded One_nat_def]
            three_patch_bs2_sums [unfolded One_nat_def])
  qed
  then show ?thesis
    unfolding bs2_defined_def n three_patch_counts by simp
qed

theorem bootstrap2_resampling_witness:
  "bootstrap2_pairs 3 3 (keys three_patch_store) [0, 0, 1]
     = Inr (bs2_draw_pairs three_patch_store [0, 0, 1])
   \<and> count_list (bs2_draw_pairs three_patch_store [0, 0, 1]) (0, 0) = 2
   \<and> count_list (bs2_draw_pairs three_patch_store [0, 0, 1]) (1, 1) = 1
   \<and> count_list (bs2_draw_pairs three_patch_store [0, 0, 1]) (0, 1) = 2
   \<and> count_list (bs2_draw_pairs three_patch_store [0, 0, 1]) (1, 0) = 0
   \<and> count_list (bs2_draw_pairs three_patch_store [0, 0, 1]) (1, 2) = 0
   \<and> cov_bootstrap2 rng_repeat [three_patch_store] = Inr [[Fin (49 / 1800)]]"
proof -
  have ne: "npatch1_of three_patch_store \<noteq> 1" "npatch2_of three_patch_store \<noteq> 1"
    by (simp_all add: three_patch_counts)
  have nb: "num_bootstrap three_patch_store \<noteq> 1" by (simp add: three_patch_store_def)
  note t = bootstrap2_resampling [OF three_patch_invariant ne three_patch_diag,
      of "[0, 0, 1]" rng_repeat]
  from t have 1: "bootstrap2_pairs 3 3 (keys three_patch_store) [0, 0, 1]
     = Inr (bs2_draw_pairs three_patch_store [0, 0, 1])"
    by (simp add: three_patch_counts)
  from t have d: "\<forall>i. count_list (bs2_draw_pairs three_patch_store [0, 0, 1]) (i, i)
      = count_list [0, 0, 1] i"
    and x: "\<forall>i j. i \<noteq> j \<longrightarrow> count_list (bs2_draw_pairs three_patch_store [0, 0, 1]) (i, j)
           = (if (i, j) \<in> set (keys three_patch_store)
              then count_list [0, 0, 1] i * count_list [0, 0, 1] j else 0)"
    and c: "bs2_defined rng_repeat three_patch_store \<and> num_bootstrap three_patch_store \<noteq> 1 \<longrightarrow>
      cov_bootstrap2 rng_repeat [three_patch_store]
      = Inr (map (map Fin) (bootstrap2_spec rng_repeat three_patch_store))"
    by blast+
  from c three_patch_bs2_defined nb have c': "cov_bootstrap2 rng_repeat [three_patch_store]
      = Inr (map (map Fin) (bootstrap2_spec rng_repeat three_patch_store))" by blast
  from d have "count_list (bs2_draw_pairs three_patch_store [0, 0, 1]) (0, 0) = 2"
    "count_list (bs2_draw_pairs three_patch_store [0, 0, 1]) (1, 1) = 1" by simp_all
  moreover from x [rule_format, of 0 1]
  have "count_list (bs2_draw_pairs three_patch_store [0, 0, 1]) (0, 1) = 2"
    by (simp add: three_patch_keys)
  moreover from x [rule_format, of 1 0]
  have "count_list (bs2_draw_pairs three_patch_store [0, 0, 1]) (1, 0) = 0"
    by (simp add: three_patch_keys)
  moreover from x [rule_format, of 1 2]
  have "count_list (bs2_draw_pairs three_patch_store [0, 0, 1]) (1, 2) = 0"
    by (simp add: three_patch_keys)
  ultimately show ?thesis using 1 c' by (simp add: three_patch_bs2_spec)
qed

section \<open>Properties of the accumulation\<close>

lemma auto_cross_fold:
  "fold (auto_cross_step add_tot pc e1) es st
     = fold (run_step add_tot)
         (map (\<lambda>e2. ((patch_id e1, patch_id e2), pc (snd e1) (snd e2)))
            (filter (\<lambda>e2. patch_id e1 < patch_id e2) es)) st"
proof (induction es arbitrary: st)
  case Nil show ?case by simp
next
  case (Cons e es)
  show ?case
  proof (cases "patch_id e1 < patch_id e")
    case True
    then have "auto_cross_step add_tot pc e1 e st
        = run_step add_tot ((patch_id e1, patch_id e), pc (snd e1) (snd e)) st"
      by (simp add: auto_cross_step_def run_step_def recorded_def Let_def)
    with True Cons show ?thesis by simp
  next
    case False
    then have "auto_cross_step add_tot pc e1 e st = st"
      by (simp add: auto_cross_step_def Let_def)
    with False Cons show ?thesis by simp
  qed
qed

lemma auto_step_fold:
  "auto_step add_tot pa pc cat1 e1 st
     = fold (run_step add_tot)
         (((patch_id e1, patch_id e1), pa (snd e1))
          # [((patch_id e1, patch_id e2), pc (snd e1) (snd e2)).
               e2 \<leftarrow> List.enumerate 0 cat1, patch_id e1 < patch_id e2]) st"
  by (simp add: auto_step_def Let_def auto_cross_fold concat_map_if run_step_def recorded_def)

lemma process_all_auto_run:
  assumes "length cat1 \<noteq> 1"
  shows "process_all_auto add_tot pa pc cat1 s
       = fold (run_step add_tot) (auto_schedule pa pc cat1) (s, [])"
proof -
  have "fold (auto_step add_tot pa pc cat1) es st
      = fold (run_step add_tot)
          (concat (map (\<lambda>e1.
              ((patch_id e1, patch_id e1), pa (snd e1))
              # [((patch_id e1, patch_id e2), pc (snd e1) (snd e2)).
                   e2 \<leftarrow> List.enumerate 0 cat1, patch_id e1 < patch_id e2]) es)) st" for es st
    by (induction es arbitrary: st) (simp_all add: auto_step_fold del: fold_simps(2))
  with assms show ?thesis
    by (simp add: process_all_auto_def auto_schedule_def)
qed

lemma cross_inner_fold:
  "fold (cross_step add_tot pc e1) es st
     = fold (run_step add_tot)
         (map (\<lambda>e2. ((patch_id e1, patch_id e2), pc (snd e1) (snd e2))) es) st"
  by (induction es arbitrary: st)
     (simp_all add: cross_step_def run_step_def recorded_def Let_def)

lemma process_all_cross_run:
  assumes "\<not> (length cat1 = 1 \<and> length cat2 = 1)"
  shows "process_all_cross add_tot pc cat1 cat2 s
       = fold (run_step add_tot) (cross_schedule pc cat1 cat2) (s, [])"
proof -
  have "fold (\<lambda>e1. fold (cross_step add_tot pc e1) (List.enumerate 0 cat2)) es st
      = fold (run_step add_tot)
          (concat (map (\<lambda>e1. map (\<lambda>e2. ((patch_id e1, patch_id e2), pc (snd e1) (snd e2)))
                           (List.enumerate 0 cat2)) es)) st" for es st
    by (induction es arbitrary: st) (simp_all add: cross_inner_fold)
  moreover have "cross_schedule pc cat1 cat2
      = concat (map (\<lambda>e1. map (\<lambda>e2. ((patch_id e1, patch_id e2), pc (snd e1) (snd e2)))
                           (List.enumerate 0 cat2)) (List.enumerate 0 cat1))"
    by (simp add: cross_schedule_def concat_map_singleton)
  moreover from assms have "process_all_cross add_tot pc cat1 cat2 s
      = fold (\<lambda>e1. fold (cross_step add_tot pc e1) (List.enumerate 0 cat2))
          (List.enumerate 0 cat1) (s, [])"
    by (auto simp: process_all_cross_def)
  ultimately show ?thesis by simp
qed

lemma run_trace:
  "snd (fold (run_step h) xs st) = snd st @ map snd (filter (\<lambda>x. \<not> recorded x) xs)"
  by (induction xs arbitrary: st) (simp_all add: run_step_def)

lemma results_store_result [simp]:
  "results (store_result k t s) = AList.update k t (results s)"
  by (simp add: store_result_def iadd_def)

lemma run_results:
  assumes "side_channel_hook h"
  shows "results (fst (fold (run_step h) xs st))
       = fold (\<lambda>x. AList.update (fst x) (snd x)) (filter recorded xs) (results (fst st))"
  using assms
  by (induction xs arbitrary: st) (simp_all add: run_step_def side_channel_hook_def)

lemma update_fresh:
  "k \<notin> fst ` set al \<Longrightarrow> AList.update k v al = al @ [(k, v)]"
  by (induction al) auto

lemma fold_update_fresh:
  "distinct (map fst (al @ ys))
     \<Longrightarrow> fold (\<lambda>x. AList.update (fst x) (snd x)) ys al = al @ ys"
proof (induction ys arbitrary: al)
  case Nil show ?case by simp
next
  case (Cons y ys)
  from Cons.prems have f: "fst y \<notin> fst ` set al" by auto
  from Cons.prems have "distinct (map fst ((al @ [y]) @ ys))" by simp
  from Cons.IH [OF this] show ?case
    by (simp add: update_fresh [OF f])
qed

lemma hook_past_stores:
  assumes "side_channel_hook h"
  shows "fold (\<lambda>x. store_result (fst x) (snd x)) rs (h s t)
       = h (fold (\<lambda>x. store_result (fst x) (snd x)) rs s) t"
proof (induction rs arbitrary: s)
  case Nil show ?case by simp
next
  case (Cons x rs)
  from assms have "\<forall>k t t' s. h (store_result k t s) t' = store_result k t (h s t')"
    unfolding side_channel_hook_def by (rule conjunct2)
  then have "h (store_result (fst x) (snd x) s) t = store_result (fst x) (snd x) (h s t)"
    by blast
  then have "store_result (fst x) (snd x) (h s t) = h (store_result (fst x) (snd x) s) t"
    by (rule sym)
  then show ?case by (simp add: Cons.IH)
qed

lemma run_state:
  assumes "side_channel_hook h"
  shows "fst (fold (run_step h) xs st)
       = fold (\<lambda>t s. h s t) (map snd (filter (\<lambda>x. \<not> recorded x) xs))
           (fold (\<lambda>x. store_result (fst x) (snd x)) (filter recorded xs) (fst st))"
proof (induction xs arbitrary: st)
  case Nil show ?case by simp
next
  case (Cons x xs)
  have step: "fold (run_step h) (x # xs) st = fold (run_step h) xs (run_step h x st)"
    by simp
  show ?case
  proof (cases "recorded x")
    case True
    then have "run_step h x st = (store_result (fst x) (snd x) (fst st), snd st)"
      by (simp add: run_step_def)
    with True show ?thesis unfolding step Cons.IH by simp
  next
    case False
    then have "run_step h x st = (h (fst st) (snd x), snd st @ [snd x])"
      by (simp add: run_step_def)
    with False show ?thesis unfolding step Cons.IH
      by (simp add: hook_past_stores [OF assms])
  qed
qed

lemma arrays_store_result:
  "xi (store_result k t s) = map2 (+) (xi s) (xi t)"
  "weight (store_result k t s) = map2 (+) (weight s) (weight t)"
  "npairs (store_result k t s) = map2 (+) (npairs s) (npairs t)"
  by (simp_all add: store_result_def iadd_def)

lemma arrays_fold_store:
  "xi (fold (\<lambda>x. store_result (fst x) (snd x)) rs s) = merged xi (map snd rs) (xi s)"
  "weight (fold (\<lambda>x. store_result (fst x) (snd x)) rs s) = merged weight (map snd rs) (weight s)"
  "npairs (fold (\<lambda>x. store_result (fst x) (snd x)) rs s) = merged npairs (map snd rs) (npairs s)"
  by (induction rs arbitrary: s) (simp_all add: merged_def arrays_store_result)

lemma arrays_fold_hook:
  assumes "side_channel_hook h"
  shows "xi (fold (\<lambda>t s. h s t) ts s) = xi s" "weight (fold (\<lambda>t s. h s t) ts s) = weight s"
    "npairs (fold (\<lambda>t s. h s t) ts s) = npairs s"
  using assms by (induction ts arbitrary: s) (simp_all add: side_channel_hook_def)

lemma run_summary:
  assumes h: "side_channel_hook h" and e: "results s = []" and d: "distinct (map fst xs)"
  shows "results (fst (fold (run_step h) xs (s, []))) = filter recorded xs"
    "map_of (results (fst (fold (run_step h) xs (s, [])))) k = Some r
       \<longleftrightarrow> (k, r) \<in> set xs \<and> recorded (k, r)"
    "snd (fold (run_step h) xs (s, [])) = map snd (filter (\<lambda>x. \<not> recorded x) xs)"
    "fst (fold (run_step h) xs (s, []))
       = fold (\<lambda>t s. h s t) (snd (fold (run_step h) xs (s, [])))
           (fold (\<lambda>x. store_result (fst x) (snd x))
              (results (fst (fold (run_step h) xs (s, [])))) s)"
    "xi (fst (fold (run_step h) xs (s, [])))
       = merged xi (map snd (results (fst (fold (run_step h) xs (s, []))))) (xi s)"
    "weight (fst (fold (run_step h) xs (s, [])))
       = merged weight (map snd (results (fst (fold (run_step h) xs (s, []))))) (weight s)"
    "npairs (fst (fold (run_step h) xs (s, [])))
       = merged npairs (map snd (results (fst (fold (run_step h) xs (s, []))))) (npairs s)"
proof -
  from d have df: "distinct (map fst (filter recorded xs))"
    by (simp add: distinct_map_filter)
  show 1: "results (fst (fold (run_step h) xs (s, []))) = filter recorded xs"
    using fold_update_fresh [of "[]" "filter recorded xs"] df
    by (simp add: run_results [OF h] e)
  show "map_of (results (fst (fold (run_step h) xs (s, [])))) k = Some r
       \<longleftrightarrow> (k, r) \<in> set xs \<and> recorded (k, r)"
    unfolding 1 using map_of_eq_Some_iff [OF df, of k r] by simp
  show 3: "snd (fold (run_step h) xs (s, [])) = map snd (filter (\<lambda>x. \<not> recorded x) xs)"
    by (simp add: run_trace)
  show 4: "fst (fold (run_step h) xs (s, []))
       = fold (\<lambda>t s. h s t) (snd (fold (run_step h) xs (s, [])))
           (fold (\<lambda>x. store_result (fst x) (snd x))
              (results (fst (fold (run_step h) xs (s, [])))) s)"
    unfolding 1 3 by (simp add: run_state [OF h])
  show "xi (fst (fold (run_step h) xs (s, [])))
       = merged xi (map snd (results (fst (fold (run_step h) xs (s, []))))) (xi s)"
    by (subst 4) (simp only: arrays_fold_hook [OF h] arrays_fold_store)
  show "weight (fst (fold (run_step h) xs (s, [])))
       = merged weight (map snd (results (fst (fold (run_step h) xs (s, []))))) (weight s)"
    by (subst 4) (simp only: arrays_fold_hook [OF h] arrays_fold_store)
  show "npairs (fst (fold (run_step h) xs (s, [])))
       = merged npairs (map snd (results (fst (fold (run_step h) xs (s, []))))) (npairs s)"
    by (subst 4) (simp only: arrays_fold_hook [OF h] arrays_fold_store)
qed

lemma auto_keys:
  "map fst (auto_schedule pa pc cat1)
     = concat (map (\<lambda>i. (i, i) # map (Pair i) (filter (\<lambda>j. i < j)
                                (map patch_id (List.enumerate 0 cat1))))
         (map patch_id (List.enumerate 0 cat1)))"
  by (simp add: auto_schedule_def map_concat o_def concat_map_if filter_map)

lemma cross_keys:
  "map fst (cross_schedule pc cat1 cat2)
     = concat (map (\<lambda>i. map (Pair i) (map patch_id (List.enumerate 0 cat2)))
         (map patch_id (List.enumerate 0 cat1)))"
  by (simp add: cross_schedule_def map_concat o_def concat_map_singleton)

lemma distinct_blocks:
  assumes "distinct is" "\<And>i. i \<in> set is \<Longrightarrow> distinct (f i)"
    and "\<And>i p. p \<in> set (f i) \<Longrightarrow> fst p = i"
  shows "distinct (concat (map f is))"
  using assms(1,2)
proof (induction "is")
  case Nil show ?case by simp
next
  case (Cons i js)
  have "set (f i) \<inter> set (concat (map f js)) = {}"
  proof (rule ccontr)
    assume "set (f i) \<inter> set (concat (map f js)) \<noteq> {}"
    then obtain p j where "p \<in> set (f i)" "j \<in> set js" "p \<in> set (f j)" by auto
    with assms(3) have "i \<in> set js" by metis
    with Cons.prems(1) show False by simp
  qed
  with Cons show ?case by simp
qed

lemma auto_keys_distinct:
  assumes "distinct (map patch_id (List.enumerate 0 cat1))"
  shows "distinct (map fst (auto_schedule pa pc cat1))"
  unfolding auto_keys
  using assms
  by (intro distinct_blocks) (auto simp: distinct_map inj_on_def)

lemma cross_keys_distinct:
  assumes "distinct (map patch_id (List.enumerate 0 cat1))"
    "distinct (map patch_id (List.enumerate 0 cat2))"
  shows "distinct (map fst (cross_schedule pc cat1 cat2))"
  unfolding cross_keys
  using assms
  by (intro distinct_blocks) (auto simp: distinct_map inj_on_def)

lemma auto_schedule_mem:
  "(k, r) \<in> set (auto_schedule pa pc cat1) \<longleftrightarrow>
     (\<exists>e1 \<in> set (List.enumerate 0 cat1).
        (k = (patch_id e1, patch_id e1) \<and> r = pa (snd e1))
      \<or> (\<exists>e2 \<in> set (List.enumerate 0 cat1).
            patch_id e1 < patch_id e2 \<and> k = (patch_id e1, patch_id e2)
            \<and> r = pc (snd e1) (snd e2)))"
  by (auto simp: auto_schedule_def concat_map_if)

lemma cross_schedule_mem:
  "(k, r) \<in> set (cross_schedule pc cat1 cat2) \<longleftrightarrow>
     (\<exists>e1 \<in> set (List.enumerate 0 cat1). \<exists>e2 \<in> set (List.enumerate 0 cat2).
        k = (patch_id e1, patch_id e2) \<and> r = pc (snd e1) (snd e2))"
  by (auto simp: cross_schedule_def)

lemma accumulated_run:
  assumes "side_channel_hook h" "results s = []" "distinct (map fst xs)"
  shows "accumulated h s xs (fold (run_step h) xs (s, []))"
  unfolding accumulated_def
  using run_summary [OF assms] by blast

text \<open>
  Claim C7, as the code has it. Starting from an empty store, with distinct patch numbers
  and a hook that works on a side channel, the patch-wise accumulation stores a computed
  result under its key \<open>(i,j)\<close> if and only if \<open>i = j\<close> or the sum of its pair counts
  \<^verbatim>\<open>npairs\<close> is positive; the computed results are, in auto mode, those of the
  pairs \<open>i \<le> j\<close> of patches, and in cross mode those of all pairs \<open>(i,j)\<close>, so that the
  diagonal is always stored. The hook \<^verbatim>\<open>_add_tot\<close> is called on exactly the
  computed results that are not stored. The accumulated object is the initial one with
  every stored result merged and the hook applied to the others, and its arrays are the
  initial arrays with the stored results merged in.
\<close>

theorem patch_accumulation:
  assumes "side_channel_hook add_tot" "results s = []"
  shows
   "(length cat1 \<noteq> 1 \<and> distinct (map patch_id (List.enumerate 0 cat1)) \<longrightarrow>
       accumulated add_tot s (auto_schedule pa pc cat1) (process_all_auto add_tot pa pc cat1 s))
  \<and> (\<not> (length cat1 = 1 \<and> length cat2 = 1)
       \<and> distinct (map patch_id (List.enumerate 0 cat1))
       \<and> distinct (map patch_id (List.enumerate 0 cat2)) \<longrightarrow>
       accumulated add_tot s (cross_schedule pc cat1 cat2)
         (process_all_cross add_tot pc cat1 cat2 s))
  \<and> (\<forall>k r. (k, r) \<in> set (auto_schedule pa pc cat1) \<longleftrightarrow>
       (\<exists>e1 \<in> set (List.enumerate 0 cat1).
          (k = (patch_id e1, patch_id e1) \<and> r = pa (snd e1))
        \<or> (\<exists>e2 \<in> set (List.enumerate 0 cat1).
              patch_id e1 < patch_id e2 \<and> k = (patch_id e1, patch_id e2)
              \<and> r = pc (snd e1) (snd e2))))
  \<and> (\<forall>k r. (k, r) \<in> set (cross_schedule pc cat1 cat2) \<longleftrightarrow>
       (\<exists>e1 \<in> set (List.enumerate 0 cat1). \<exists>e2 \<in> set (List.enumerate 0 cat2).
          k = (patch_id e1, patch_id e2) \<and> r = pc (snd e1) (snd e2)))"
proof (intro conjI impI allI)
  assume "length cat1 \<noteq> 1 \<and> distinct (map patch_id (List.enumerate 0 cat1))"
  then show "accumulated add_tot s (auto_schedule pa pc cat1)
               (process_all_auto add_tot pa pc cat1 s)"
    by (simp add: process_all_auto_run accumulated_run [OF assms] auto_keys_distinct)
next
  assume "\<not> (length cat1 = 1 \<and> length cat2 = 1)
       \<and> distinct (map patch_id (List.enumerate 0 cat1))
       \<and> distinct (map patch_id (List.enumerate 0 cat2))"
  then show "accumulated add_tot s (cross_schedule pc cat1 cat2)
         (process_all_cross add_tot pc cat1 cat2 s)"
    using process_all_cross_run [of cat1 cat2 add_tot pc s]
      accumulated_run [OF assms cross_keys_distinct, of cat1 cat2 pc]
    by presburger
next
  fix k r
  show "(k, r) \<in> set (auto_schedule pa pc cat1) \<longleftrightarrow>
       (\<exists>e1 \<in> set (List.enumerate 0 cat1).
          (k = (patch_id e1, patch_id e1) \<and> r = pa (snd e1))
        \<or> (\<exists>e2 \<in> set (List.enumerate 0 cat1).
              patch_id e1 < patch_id e2 \<and> k = (patch_id e1, patch_id e2)
              \<and> r = pc (snd e1) (snd e2)))"
    by (rule auto_schedule_mem)
next
  fix k r
  show "(k, r) \<in> set (cross_schedule pc cat1 cat2) \<longleftrightarrow>
       (\<exists>e1 \<in> set (List.enumerate 0 cat1). \<exists>e2 \<in> set (List.enumerate 0 cat2).
          k = (patch_id e1, patch_id e2) \<and> r = pc (snd e1) (snd e2))"
    by (rule cross_schedule_mem)
qed

lemma count_hook_ok: "side_channel_hook count_hook"
  by (simp add: side_channel_hook_def count_hook_def store_result_def iadd_def)

lemma two_catalogs_length: "length two_catalogs = 2"
  by (simp add: two_catalogs_def)

lemma two_catalogs_ids: "map patch_id (List.enumerate 0 two_catalogs) = [0, 1]"
  by (simp add: two_catalogs_def enumerate_eq_zip patch_id_def upt_2)

lemma two_catalogs_enum:
  "List.enumerate 0 two_catalogs
     = [(0, \<lparr> patch = Some 0, cat_data = () \<rparr>), (1, \<lparr> patch = None, cat_data = () \<rparr>)]"
  by (simp add: two_catalogs_def enumerate_eq_zip upt_2)

theorem patch_accumulation_witness:
  "results (fst (process_all_auto count_hook (\<lambda>c. patch_result 1 1) (\<lambda>c1 c2. no_pairs)
                   two_catalogs cleared))
     = [((0, 0), patch_result 1 1), ((1, 1), patch_result 1 1)]
   \<and> snd (process_all_auto count_hook (\<lambda>c. patch_result 1 1) (\<lambda>c1 c2. no_pairs)
            two_catalogs cleared) = [no_pairs]
   \<and> xi (fst (process_all_auto count_hook (\<lambda>c. patch_result 1 1) (\<lambda>c1 c2. no_pairs)
                two_catalogs cleared)) = [2]
   \<and> results (fst (process_all_cross count_hook (\<lambda>c1 c2. no_pairs) two_catalogs two_catalogs
                     cleared))
     = [((0, 0), no_pairs), ((1, 1), no_pairs)]
   \<and> snd (process_all_cross count_hook (\<lambda>c1 c2. no_pairs) two_catalogs two_catalogs cleared)
     = [no_pairs, no_pairs]"
proof -
  have r: "results cleared = []" by (simp add: cleared_def)
  have l: "length two_catalogs \<noteq> 1" by (simp add: two_catalogs_def)
  have d: "distinct (map patch_id (List.enumerate 0 two_catalogs))"
    by (simp add: two_catalogs_ids)
  note t = patch_accumulation [of count_hook cleared two_catalogs
      "\<lambda>c. patch_result 1 1" "\<lambda>c1 c2. no_pairs" two_catalogs, OF count_hook_ok r]
  have a: "auto_schedule (\<lambda>c. patch_result 1 1) (\<lambda>c1 c2. no_pairs) two_catalogs
      = [((0, 0), patch_result 1 1), ((0, 1), no_pairs), ((1, 1), patch_result 1 1)]"
    by (simp add: auto_schedule_def two_catalogs_enum patch_id_def)
  have c: "cross_schedule (\<lambda>c1 c2. no_pairs) two_catalogs two_catalogs
      = [((0, 0), no_pairs), ((0, 1), no_pairs), ((1, 0), no_pairs), ((1, 1), no_pairs)]"
    by (simp add: cross_schedule_def two_catalogs_enum patch_id_def)
  from t l d have "accumulated count_hook cleared
      [((0, 0), patch_result 1 1), ((0, 1), no_pairs), ((1, 1), patch_result 1 1)]
      (process_all_auto count_hook (\<lambda>c. patch_result 1 1) (\<lambda>c1 c2. no_pairs)
         two_catalogs cleared)"
    by (simp add: a)
  moreover from t l d have "accumulated count_hook cleared
      [((0, 0), no_pairs), ((0, 1), no_pairs), ((1, 0), no_pairs), ((1, 1), no_pairs)]
      (process_all_cross count_hook (\<lambda>c1 c2. no_pairs) two_catalogs two_catalogs cleared)"
    by (simp add: c)
  ultimately show ?thesis
    by (simp add: accumulated_def recorded_def patch_result_def no_pairs_def merged_def
          cleared_def)
qed

text \<open>
  A cross result between the patches 0 and 1 with two pairs and accumulated weight zero is
  stored, and the hook is not called.
\<close>

theorem zero_weight_result_stored:
  "map_of (results (fst (process_all_auto base_add_tot (\<lambda>c. patch_result 1 1)
                          (\<lambda>c1 c2. zero_weight) two_catalogs cleared))) (0, 1)
     = Some zero_weight
   \<and> weight zero_weight = [0]
   \<and> snd (process_all_auto base_add_tot (\<lambda>c. patch_result 1 1) (\<lambda>c1 c2. zero_weight)
            two_catalogs cleared) = []"
  using two_catalogs_length
  by (simp add: process_all_auto_def two_catalogs_enum auto_step_def auto_cross_step_def
        patch_id_def store_result_def iadd_def zero_weight_def cleared_def Let_def
        base_add_tot_def)


section \<open>The number of bootstrap resamplings\<close>

lemma get_patch_nums_triples:
  assumes "get_patch_nums corrs = Inr (np, triples)"
  shows "length triples = length corrs"
proof (cases corrs)
  case Nil
  with assms show ?thesis by (simp add: get_patch_nums_def)
next
  case (Cons c0 rest)
  from assms show ?thesis
    unfolding get_patch_nums_def Cons Let_def
    by (auto split: if_splits simp: ebind_Inr dest!: emap_Inr_all2 list_all2_lengthD)
qed

lemma resample_length: "length (resample n vnum vdenom indx) = n"
  by (simp add: resample_def vec_div_def np_sum_rows_def)

lemma bootstrap_samples_rows:
  assumes "bootstrap_samples rng corrs = Inr v"
  shows "\<forall>row \<in> set v. length row = total_len corrs"
proof -
  have tail: "\<forall>row \<in> set v. length row = total_len corrs"
    if "(if max_num_bootstrap corrs < 0
         then Inl (ValueError ''negative dimensions are not allowed'')
         else Inr (map (\<lambda>k. resample (total_len corrs) vnum vdenom (g k))
                     [0..<nat (max_num_bootstrap corrs)])) = Inr v"
    for vnum vdenom and g :: "nat \<Rightarrow> nat list"
    using that by (cases "max_num_bootstrap corrs < 0") (auto simp: resample_length)
  from assms show ?thesis
    unfolding bootstrap_samples_def ebind_Inr case_prod_beta Let_def
    by (elim exE conjE) (erule tail)
qed

lemma make_cov_design_matrix_rows:
  assumes "make_cov_design_matrix c ps = Inr x"
  shows "(\<forall>row \<in> set (fst x). length row = getStatLen c)
       \<and> (\<forall>row \<in> set (snd x). length row = getStatLen c)"
  using assms by (auto simp: make_cov_design_matrix_def ebind_Inr np_sum_rows_def)

lemma bootstrap2_design_rows:
  assumes "bootstrap2_design rng npatch nboot corrs triples = Inr nd"
    and "length triples = length corrs"
  shows "list_all2 (\<lambda>c x. (\<forall>row \<in> set (fst x). length row = getStatLen c)
                        \<and> (\<forall>row \<in> set (snd x). length row = getStatLen c)) corrs nd"
proof -
  note a = emap_Inr_all2 [OF assms(1) [unfolded bootstrap2_design_def]]
  from list_all2_lengthD [OF a] assms(2) have len: "length nd = length corrs"
    by (simp add: length_enumerate)
  have "(\<forall>row \<in> set (fst (nd ! j)). length row = getStatLen (corrs ! j))
       \<and> (\<forall>row \<in> set (snd (nd ! j)). length row = getStatLen (corrs ! j))"
    if j: "j < length corrs" for j
  proof -
    from j a assms(2) have "ebind (emap (\<lambda>k. bootstrap2_pairs (fst (triples ! j)) (fst (snd (triples ! j)))
                   (snd (snd (triples ! j))) (randint rng (j * nboot + k) npatch)) [0..<nboot])
             (make_cov_design_matrix (corrs ! j)) = Inr (nd ! j)"
      by (simp add: list_all2_conv_all_nth nth_enumerate_eq case_prod_beta)
    then obtain ps where "make_cov_design_matrix (corrs ! j) ps = Inr (nd ! j)"
      unfolding ebind_Inr by blast
    then show ?thesis by (rule make_cov_design_matrix_rows)
  qed
  with len show ?thesis by (simp add: list_all2_conv_all_nth)
qed

lemma hstack_rows:
  assumes "hstack ms = Inr m"
    and "list_all2 (\<lambda>c x. \<forall>row \<in> set x. length row = g c) cs ms"
    and "row \<in> set m"
  shows "length row = sum_list (map g cs)"
proof -
  from assms(1) obtain m0 rest where ms: "ms = m0 # rest"
    and all: "list_all (\<lambda>m'. length m' = length m0) rest"
    and m: "m = map (\<lambda>i. concat (map (\<lambda>m'. m' ! i) ms)) [0..<length m0]"
    by (cases ms) (auto simp: hstack_def split: if_splits)
  from assms(3) m obtain i where i: "i < length m0" "row = concat (map (\<lambda>m'. m' ! i) ms)"
    by auto
  have L: "\<forall>m' \<in> set ms. length m' = length m0"
    using ms all by (auto simp: list_all_iff)
  have "list_all2 (\<lambda>c x. length (x ! i) = g c) cs ms"
    using assms(2) L i(1) by (auto simp: list_all2_conv_all_nth)
  then have "sum_list (map (\<lambda>x. length (x ! i)) ms) = sum_list (map g cs)"
    by (induction rule: list_all2_induct) simp_all
  with i(2) show ?thesis by (simp add: length_concat o_def)
qed

lemma bootstrap2_samples_rows:
  assumes "bootstrap2_samples rng corrs = Inr v"
  shows "\<forall>row \<in> set v. length row = total_len corrs"
proof
  fix row assume row: "row \<in> set v"
  from assms obtain pn nd vnum vdenom where gp: "get_patch_nums corrs = Inr pn"
    and nd: "bootstrap2_design rng (fst pn) (nat (max_num_bootstrap corrs)) corrs (snd pn) = Inr nd"
    and vn: "hstack (map fst nd) = Inr vnum" and vd: "hstack (map snd nd) = Inr vdenom"
    and v: "Inr (mat_div vnum vdenom) = (Inr v :: error + npmat)"
    unfolding bootstrap2_samples_def ebind_Inr case_prod_beta by blast
  from gp have "length (snd pn) = length corrs"
    using get_patch_nums_triples [of corrs "fst pn" "snd pn"] by simp
  note R = bootstrap2_design_rows [OF nd this]
  from R have R1: "list_all2 (\<lambda>c x. \<forall>row \<in> set x. length row = getStatLen c) corrs (map fst nd)"
    by (simp add: list_all2_map2 list_all2_conv_all_nth)
  from R have R2: "list_all2 (\<lambda>c x. \<forall>row \<in> set x. length row = getStatLen c) corrs (map snd nd)"
    by (simp add: list_all2_map2 list_all2_conv_all_nth)
  from row v obtain a d where ad: "(a, d) \<in> set (zip vnum vdenom)" "row = vec_div a d"
    by (auto simp: mat_div_def)
  from ad(1) have "a \<in> set vnum" "d \<in> set vdenom"
    by (auto dest: set_zip_leftD set_zip_rightD)
  with hstack_rows [OF vn R1] hstack_rows [OF vd R2] ad(2)
  show "length row = total_len corrs"
    by (simp add: vec_div_def total_len_def)
qed


lemma gpn_pair: "get_patch_nums bootstrap_pair
   = Inr (3, [(3, 3, [(0,0),(0,1),(0,2),(1,1),(1,2),(2,2)]), (3, 3, [(0,0),(0,1),(0,2),(1,1),(1,2),(2,2)])])"
  by (simp add: get_patch_nums_def bootstrap_pair_def three_patch_store_def keys_def count_distinct_def Let_def
        check_patches_def atLeast0_lessThan_Suc insert_commute numeral_2_eq_2 numeral_3_eq_3)

lemma pair_facts:
  "bootstrap_pair \<noteq> []" "Max (num_bootstrap ` set bootstrap_pair) = 3" "total_len bootstrap_pair = 2"
  by (simp_all add: bootstrap_pair_def three_patch_store_def total_len_def)

lemma bs_pair: "bootstrap_samples rng_repeat bootstrap_pair
   = Inr (map (map Fin) [[1 / 4, 1 / 4], [1 / 6, 1 / 6], [1 / 6, 1 / 6]])"
  unfolding bootstrap_samples_def gpn_pair
  by (simp add: design_matrices_def sample_pairs_def upt_2 upt_3 make_cov_design_matrix_def result_at_def
        three_patch_store_def bootstrap_pair_def hstack_def max_num_bootstrap_def Let_def
        resample_def vec_div_def np_sum_rows_def randint_def rng_repeat_def patch_result_def
        total_len_def)

lemma bs2_pair: "bootstrap2_samples rng_repeat bootstrap_pair
   = Inr (map (map Fin) [[2 / 5, 1 / 6], [1 / 6, 1 / 6], [1 / 6, 1 / 6]])"
  unfolding bootstrap2_samples_def gpn_pair
  by (simp add: bootstrap2_design_def bootstrap2_pairs_def upt_2 upt_3 make_cov_design_matrix_def
        result_at_def three_patch_store_def bootstrap_pair_def hstack_def max_num_bootstrap_def
        Let_def enumerate_eq_zip randint_def rng_repeat_def mat_div_def vec_div_def np_sum_rows_def
        patch_result_def)

lemma cov_pair:
  "covariance_of (1 / (real_of_int 3 - 1)) 2 [[1 / 4, 1 / 4], [1 / 6, 1 / 6], [1 / 6, 1 / 6]]
     = [[1 / 432, 1 / 432], [1 / 432, 1 / 432]]"
  "covariance_of (1 / (real_of_int 3 - 1)) 2 [[2 / 5, 1 / 6], [1 / 6, 1 / 6], [1 / 6, 1 / 6]]
     = [[49 / 2700, 0], [0, 0]]"
  by (simp_all add: covariance_of_def mean_of_def upt_2)


text \<open>
  With a single resampling the factor \<open>1/(nboot - 1)\<close> is infinite and the matrix of
  deviations is zero: the covariance is not-a-number.
\<close>

lemma bootstrap_single_resampling:
  "cov_bootstrap rng_repeat [three_patch_store\<lparr>num_bootstrap := 1\<rparr>] = Inr [[NaN]]"
proof -
  have g: "get_patch_nums [three_patch_store\<lparr>num_bootstrap := 1\<rparr>]
      = Inr (3, [(3, 3, [(0,0),(0,1),(0,2),(1,1),(1,2),(2,2)])])"
    by (simp add: get_patch_nums_def three_patch_store_def keys_def count_distinct_def Let_def
        atLeast0_lessThan_Suc insert_commute numeral_2_eq_2 numeral_3_eq_3)
  show ?thesis
    unfolding cov_bootstrap_def bootstrap_samples_def g
    by (simp add: design_matrices_def sample_pairs_def upt_3 make_cov_design_matrix_def result_at_def
        three_patch_store_def hstack_def max_num_bootstrap_def Let_def
        resample_def vec_div_def np_sum_rows_def randint_def rng_repeat_def patch_result_def
        total_len_def bootstrap_factor_def center_def col_mean_def gram_def scale_def np_sum_def
        np_sub_def np_inf_def)
qed

end
